theory Spec2Isabelle
  imports Main "HOL-Library.Word" "HOL-Library.Sublist"
begin

section \<open>The directory-to-tar streaming reader of godocker (tar\_dir\_reader.go)\<close>

text \<open>
  The reader walks a directory once, queues every entry that is not a directory, and
  starts a task that serialises the queued files into a tar stream through an
  unbuffered pipe; \<open>Read\<close> takes bytes from the other end of that pipe.

  The repository code is the five functions \<open>NewTarDirReader\<close>, \<open>init\<close>,
  \<open>writeFile\<close>, \<open>writeQueue\<close> and \<open>Read\<close>. They call into the Go standard
  library (\<open>io/fs\<close>, \<open>path/filepath\<close>, \<open>archive/tar\<close>, \<open>io\<close>); those calls are
  modelled here after the library's documented behaviour, with the file system and the
  serialisation of a tar header taken as parameters (record \<open>env\<close>). The lines the code
  prints to standard output are left out.
\<close>

subsection \<open>Bytes, errors, file metadata\<close>

type_synonym byte = "8 word"

text \<open>Go error values that can reach the code. \<open>EOF\<close> is \<open>io.EOF\<close>.\<close>

datatype error =
    EOF
  | ErrNotExist
  | ErrPermission
  | ErrIsDirectory
  | ErrIO
  | ErrSocketsNotSupported
  | ErrUnknownFileMode
  | ErrHeaderFormat
  | ErrWriteTooLong
  | ErrMissedWriting nat
  | ErrWriteAfterClose
  | ErrNilPointer

text \<open>The type bits of an \<open>fs.FileMode\<close>.\<close>

datatype mode_type =
    ModeRegular | ModeDir | ModeSymlink | ModeDevice | ModeCharDevice
  | ModeNamedPipe | ModeSocket | ModeIrregular

text \<open>
  What \<open>file.Stat()\<close> returns (\<open>fs.FileInfo\<close>): the name, the size, the type bits of the
  mode, its permission bits (\<open>Mode().Perm()\<close> is \<open>fi_perm mod 512\<close>), its setuid, setgid and
  sticky bits, and the modification time.
\<close>

record file_info =
  fi_name :: string
  fi_size :: nat
  fi_mode :: mode_type
  fi_perm :: nat
  fi_setuid :: bool
  fi_setgid :: bool
  fi_sticky :: bool
  fi_modtime :: int

datatype typeflag = TypeReg | TypeDir | TypeSymlink | TypeChar | TypeBlock | TypeFifo

text \<open>
  The fields of \<open>tar.Header\<close> that \<open>tar.FileInfoHeader\<close> fills from the methods of a
  \<open>FileInfo\<close>. The owner, the device numbers and the access and change times, which it
  takes from the system's own stat record, are left out: \<open>writeFile\<close> does not touch them.
\<close>

record header =
  Name :: string
  Size :: nat
  Mode :: nat
  ModTime :: int
  Typeflag :: typeflag
  Linkname :: string

text \<open>
  An open source file: the result of \<open>Stat\<close>, the non-final results of the successive
  \<open>Read\<close> calls that \<open>io.Copy\<close> makes, and how they end (\<open>None\<close>: with \<open>io.EOF\<close>). The
  reads of a file that has been opened are taken to come to an end.
\<close>

record src_file =
  f_stat :: "error + file_info"
  f_reads :: "byte list list"
  f_read_err :: "error option"

subsection \<open>The source tree as \<open>fs.WalkDir\<close> sees it\<close>

text \<open>
  A directory entry with its type and, for a directory, what \<open>fs.ReadDir\<close> returns for
  it: the entries (\<open>ReadDir\<close> sorts them by file name) and the error, if any.
\<close>

datatype node = Node mode_type "(string \<times> node) list" "error option"

fun IsDir :: "node \<Rightarrow> bool" where
  "IsDir (Node ty ents rderr) = (ty = ModeDir)"

text \<open>
  The environment of one reader: the root as \<open>fs.Stat\<close> and the walk find it at
  initialisation, what \<open>t.fs.Open\<close> does for a path when the producing task reaches it
  (\<open>None\<close>: the call never returns, as for a named pipe that nobody opens for writing),
  and the blocks \<open>tar.Writer\<close> writes for a header (or the error of a header that no tar
  format can hold).
\<close>

record env =
  root :: "error + node"
  open_file :: "string \<Rightarrow> (error + src_file) option"
  encode :: "header \<Rightarrow> error + byte list list"

subsection \<open>Paths\<close>

text \<open>
  \<open>path.Join(name, d.Name())\<close> as \<open>fs.WalkDir\<close> uses it, for entry names as \<open>ReadDir\<close>
  returns them (not empty, no slash, neither \<open>.\<close> nor \<open>..\<close>): below the root \<open>.\<close> the
  path is the name itself.
\<close>

definition join :: "string \<Rightarrow> string \<Rightarrow> string" where
  "join name n = (if name = ''.'' then n else name @ ''/'' @ n)"

definition valid_name :: "string \<Rightarrow> bool" where
  "valid_name n = (n \<noteq> [] \<and> CHR ''/'' \<notin> set n \<and> n \<noteq> ''.'' \<and> n \<noteq> ''..'')"

text \<open>\<open>filepath.Base\<close> on a system whose separator is the slash.\<close>

definition Base :: "string \<Rightarrow> string" where
  "Base path =
     (if path = [] then ''.''
      else let p = rev (dropWhile (\<lambda>c. c = CHR ''/'') (rev path));
               l = rev (takeWhile (\<lambda>c. c \<noteq> CHR ''/'') (rev p))
           in if l = [] then ''/'' else l)"

subsection \<open>\<open>fs.WalkDir\<close> with the callback of \<open>init\<close>\<close>

text \<open>
  The callback \<open>init\<close> passes to \<open>fs.WalkDir\<close>: it returns the error it is given, and
  otherwise appends the path of every entry that is not a directory to the queue.
\<close>

definition walkFn :: "string \<Rightarrow> node \<Rightarrow> error option \<Rightarrow> string list \<Rightarrow> error option \<times> string list" where
  "walkFn path d err q =
     (case err of
        Some e \<Rightarrow> (Some e, q)
      | None \<Rightarrow> (None, if \<not> IsDir d then q @ [path] else q))"

text \<open>
  \<open>walkDir\<close> of \<open>io/fs\<close>: the callback on the entry itself, then, for a directory,
  \<open>ReadDir\<close> (its error goes to the callback, which returns it) and the entries in order;
  the first error ends the walk.
\<close>

fun walkDir :: "string \<Rightarrow> node \<Rightarrow> string list \<Rightarrow> error option \<times> string list"
  and walkEntries :: "string \<Rightarrow> (string \<times> node) list \<Rightarrow> string list \<Rightarrow> error option \<times> string list"
where
  "walkDir name (Node ty ents rderr) q =
     (case walkFn name (Node ty ents rderr) None q of
        (Some e, q1) \<Rightarrow> (Some e, q1)
      | (None, q1) \<Rightarrow>
          if ty \<noteq> ModeDir then (None, q1)
          else (case rderr of
                  Some e \<Rightarrow> walkFn name (Node ty ents rderr) (Some e) q1
                | None \<Rightarrow> walkEntries name ents q1))"
| "walkEntries name [] q = (None, q)"
| "walkEntries name (nd # ds) q =
     (case walkDir (join name (fst nd)) (snd nd) q of
        (Some e, q1) \<Rightarrow> (Some e, q1)
      | (None, q1) \<Rightarrow> walkEntries name ds q1)"

definition WalkDir :: "error + node \<Rightarrow> string list \<Rightarrow> error option \<times> string list" where
  "WalkDir r q =
     (case r of
        Inl e \<Rightarrow> (Some e, q)
      | Inr d \<Rightarrow> walkDir ''.'' d q)"

subsection \<open>\<open>archive/tar\<close>: the writer\<close>

text \<open>
  What the producing task writes to the pipe, one item per \<open>Write\<close> of \<open>tar.Writer\<close>
  on it (a header stands for the blocks that \<open>encode\<close> gives it).
\<close>

datatype wr = WHeader header | WData "byte list" | WZeros nat

text \<open>
  The state of \<open>tar.Writer\<close>: the padding owed after the current entry, the bytes of
  the current entry not yet written, and its sticky error.
\<close>

record tar_writer =
  tw_pad :: nat
  tw_nb :: nat
  tw_err :: "error option"

text \<open>
  The producing task: the tar writer \<open>t.archive\<close>, what it has written to \<open>t.writer\<close>
  so far (oldest first), the source files it holds open, and whether it has closed
  \<open>t.writer\<close>.
\<close>

record producer =
  tw :: tar_writer
  out :: "wr list"
  handles :: "string list"
  closed :: bool

definition NewWriter :: tar_writer where
  "NewWriter = \<lparr>tw_pad = 0, tw_nb = 0, tw_err = None\<rparr>"

definition blockSize :: nat where
  "blockSize = 512"

definition blockPadding :: "nat \<Rightarrow> nat" where
  "blockPadding n = (blockSize - n mod blockSize) mod blockSize"

definition isHeaderOnlyType :: "typeflag \<Rightarrow> bool" where
  "isHeaderOnlyType fl = (fl \<noteq> TypeReg)"

text \<open>
  \<open>tar.FileInfoHeader(info, "")\<close>: the mode is the permission bits with the setuid,
  setgid and sticky bits of tar (octal 4000, 2000 and 1000) set as the file has them; the
  size is taken for regular files only, the name of a directory gets a slash, sockets and
  unknown modes are refused.
\<close>

definition header_mode :: "file_info \<Rightarrow> nat" where
  "header_mode fi =
     fi_perm fi mod 512
       + (if fi_setuid fi then 2048 else 0)
       + (if fi_setgid fi then 1024 else 0)
       + (if fi_sticky fi then 512 else 0)"

definition mk_header :: "file_info \<Rightarrow> string \<Rightarrow> nat \<Rightarrow> typeflag \<Rightarrow> string \<Rightarrow> header" where
  "mk_header fi nm sz fl link =
     \<lparr>Name = nm, Size = sz, Mode = header_mode fi, ModTime = fi_modtime fi,
      Typeflag = fl, Linkname = link\<rparr>"

definition FileInfoHeader :: "file_info \<Rightarrow> string \<Rightarrow> error + header" where
  "FileInfoHeader fi link =
     (case fi_mode fi of
        ModeRegular \<Rightarrow> Inr (mk_header fi (fi_name fi) (fi_size fi) TypeReg [])
      | ModeDir \<Rightarrow> Inr (mk_header fi (fi_name fi @ ''/'') 0 TypeDir [])
      | ModeSymlink \<Rightarrow> Inr (mk_header fi (fi_name fi) 0 TypeSymlink link)
      | ModeDevice \<Rightarrow> Inr (mk_header fi (fi_name fi) 0 TypeBlock [])
      | ModeCharDevice \<Rightarrow> Inr (mk_header fi (fi_name fi) 0 TypeChar [])
      | ModeNamedPipe \<Rightarrow> Inr (mk_header fi (fi_name fi) 0 TypeFifo [])
      | ModeSocket \<Rightarrow> Inl ErrSocketsNotSupported
      | ModeIrregular \<Rightarrow> Inl ErrUnknownFileMode)"

text \<open>
  \<open>Flush\<close>: refuses while bytes of the current entry are missing, otherwise writes the
  padding owed (a write of no bytes when none is owed).
\<close>

definition Flush :: "producer \<Rightarrow> error option \<times> producer" where
  "Flush s =
     (case tw_err (tw s) of
        Some e \<Rightarrow> (Some e, s)
      | None \<Rightarrow>
          if tw_nb (tw s) > 0 then (Some (ErrMissedWriting (tw_nb (tw s))), s)
          else (None, s\<lparr>out := out s @ [WZeros (tw_pad (tw s))],
                        tw := (tw s)\<lparr>tw_pad := 0\<rparr>\<rparr>))"

text \<open>\<open>WriteHeader\<close>: flushes the previous entry, writes the header, opens the entry.\<close>

definition WriteHeader :: "env \<Rightarrow> header \<Rightarrow> producer \<Rightarrow> error option \<times> producer" where
  "WriteHeader ev h s =
     (case Flush s of
        (Some e, s1) \<Rightarrow> (Some e, s1)
      | (None, s1) \<Rightarrow>
          (case encode ev h of
             Inl e \<Rightarrow> (Some e, s1)
           | Inr blocks \<Rightarrow>
               let sz = (if isHeaderOnlyType (Typeflag h) then 0 else Size h)
               in (None, s1\<lparr>out := out s1 @ [WHeader h],
                            tw := (tw s1)\<lparr>tw_pad := blockPadding sz, tw_nb := sz\<rparr>\<rparr>)))"

text \<open>
  \<open>Write\<close>: at most the bytes the header announced are written; a longer write is cut
  and reported as \<open>ErrWriteTooLong\<close>.
\<close>

definition twWrite :: "byte list \<Rightarrow> producer \<Rightarrow> error option \<times> producer" where
  "twWrite b s =
     (case tw_err (tw s) of
        Some e \<Rightarrow> (Some e, s)
      | None \<Rightarrow>
          let nb = tw_nb (tw s);
              overwrite = (length b > nb);
              b1 = (if overwrite then take nb b else b);
              s1 = (if b1 \<noteq> []
                    then s\<lparr>out := out s @ [WData b1],
                           tw := (tw s)\<lparr>tw_nb := nb - length b1\<rparr>\<rparr>
                    else s)
          in (if overwrite then Some ErrWriteTooLong else None, s1))"

text \<open>
  \<open>io.Copy(t.archive, file)\<close>: every non-empty read is written; the first failed write
  ends the copy, and so does the end of the reads, with their error unless it is EOF.
\<close>

fun Copy :: "byte list list \<Rightarrow> error option \<Rightarrow> producer \<Rightarrow> error option \<times> producer" where
  "Copy [] rerr s = (rerr, s)"
| "Copy (b # bs) rerr s =
     (if b = [] then Copy bs rerr s
      else (case twWrite b s of
              (Some e, s1) \<Rightarrow> (Some e, s1)
            | (None, s1) \<Rightarrow> Copy bs rerr s1))"

text \<open>\<open>Close\<close> of the tar writer: flush, then the trailer of two zero blocks.\<close>

definition twClose :: "producer \<Rightarrow> error option \<times> producer" where
  "twClose s =
     (if tw_err (tw s) = Some ErrWriteAfterClose then (None, s)
      else (case tw_err (tw s) of
              Some e \<Rightarrow> (Some e, s)
            | None \<Rightarrow>
                (case Flush s of
                   (Some e, s1) \<Rightarrow> (Some e, s1\<lparr>tw := (tw s1)\<lparr>tw_err := Some ErrWriteAfterClose\<rparr>\<rparr>)
                 | (None, s1) \<Rightarrow>
                     (None, s1\<lparr>out := out s1 @ [WZeros blockSize, WZeros blockSize],
                              tw := (tw s1)\<lparr>tw_err := Some ErrWriteAfterClose\<rparr>\<rparr>))))"

subsection \<open>The producing task: \<open>writeFile\<close> and \<open>writeQueue\<close>\<close>

text \<open>The body of \<open>writeFile\<close> after the file is open (lines 58 to 73).\<close>

definition writeFile_body :: "env \<Rightarrow> src_file \<Rightarrow> string \<Rightarrow> producer \<Rightarrow> error option \<times> producer" where
  "writeFile_body ev fl f s =
     (case f_stat fl of
        Inl e \<Rightarrow> (Some e, s)
      | Inr info \<Rightarrow>
          (case FileInfoHeader info [] of
             Inl e \<Rightarrow> (Some e, s)
           | Inr hd0 \<Rightarrow>
               (case WriteHeader ev (hd0\<lparr>Name := Base f\<rparr>) s of
                  (Some e, s1) \<Rightarrow> (Some e, s1)
                | (None, s1) \<Rightarrow>
                    (case Copy (f_reads fl) (f_read_err fl) s1 of
                       (Some e, s2) \<Rightarrow> (Some e, s2)
                     | (None, s2) \<Rightarrow> Flush s2))))"

text \<open>
  What a call of \<open>writeFile\<close> does: it returns nil, it returns an error, or it never
  returns.
\<close>

datatype ret = RetNil | RetErr error | NoReturn

text \<open>
  \<open>writeFile\<close>: a failed \<open>Open\<close> returns at once, and an \<open>Open\<close> that never returns
  keeps the task in it; otherwise the handle is held during the body and the deferred
  \<open>file.Close()\<close> releases it on every return.
\<close>

definition writeFile :: "env \<Rightarrow> string \<Rightarrow> producer \<Rightarrow> ret \<times> producer" where
  "writeFile ev f s =
     (case open_file ev f of
        None \<Rightarrow> (NoReturn, s)
      | Some (Inl e) \<Rightarrow> (RetErr e, s)
      | Some (Inr fl) \<Rightarrow>
          (case writeFile_body ev fl f (s\<lparr>handles := f # handles s\<rparr>) of
             (r, s1) \<Rightarrow>
               (case r of None \<Rightarrow> RetNil | Some e \<Rightarrow> RetErr e,
                s1\<lparr>handles := remove1 f (handles s1)\<rparr>)))"

text \<open>
  How the producing task ends: it returns, it panics with an error, or it stays for ever
  in a call that does not return.
\<close>

datatype outcome = Returned | Panicked error | Stuck

text \<open>
  The loop of \<open>writeQueue\<close>: the queued paths in order, up to the first call of
  \<open>writeFile\<close> that does not return nil.
\<close>

fun writeFiles :: "env \<Rightarrow> string list \<Rightarrow> producer \<Rightarrow> ret \<times> producer" where
  "writeFiles ev [] s = (RetNil, s)"
| "writeFiles ev (f # fs) s =
     (case writeFile ev f s of
        (RetNil, s1) \<Rightarrow> writeFiles ev fs s1
      | (RetErr e, s1) \<Rightarrow> (RetErr e, s1)
      | (NoReturn, s1) \<Rightarrow> (NoReturn, s1))"

text \<open>
  \<open>writeQueue\<close>: a panic at the first error of the loop; after the last path the tar
  writer is closed, then the pipe (\<open>PipeWriter.Close\<close> always succeeds).
\<close>

definition writeQueue :: "env \<Rightarrow> string list \<Rightarrow> producer \<Rightarrow> outcome \<times> producer" where
  "writeQueue ev q s =
     (case writeFiles ev q s of
        (RetErr e, s1) \<Rightarrow> (Panicked e, s1)
      | (NoReturn, s1) \<Rightarrow> (Stuck, s1)
      | (RetNil, s1) \<Rightarrow>
          (case twClose s1 of
             (Some e, s2) \<Rightarrow> (Panicked e, s2)
           | (None, s2) \<Rightarrow> (Returned, s2\<lparr>closed := True\<rparr>)))"

definition new_producer :: producer where
  "new_producer = \<lparr>tw = NewWriter, out = [], handles = [], closed = False\<rparr>"

subsection \<open>The pipe and the reader\<close>

text \<open>The byte blocks that reach the pipe for one item, one block per \<open>Write\<close>.\<close>

fun blocks_of :: "env \<Rightarrow> wr \<Rightarrow> byte list list" where
  "blocks_of ev (WHeader h) = (case encode ev h of Inl e \<Rightarrow> [] | Inr bs \<Rightarrow> bs)"
| "blocks_of ev (WData b) = [b]"
| "blocks_of ev (WZeros n) = [replicate n 0]"

text \<open>
  \<open>io.Pipe\<close> has no buffer: a \<open>Write\<close> of the producing task waits until reads have taken
  all its bytes, and a read takes bytes from one write only (a write of no bytes is
  taken by one read, which returns no bytes and a nil error). The reader never closes its
  end, so no write to the pipe fails. What the task writes is therefore fixed by the
  queue and by what it finds when it opens the files, and the state of
  \<open>t.reader\<close>/\<open>t.writer\<close> is: not created (nil); created with no task writing to it; or
  the writes the task has still to hand over (the first one possibly in part) and the
  way the task ends after them.
\<close>

datatype pipe = NilPipe | NoWriter | Producing "byte list list" outcome

text \<open>
  The struct \<open>tarDirReader\<close>. Its field \<open>fs\<close> is the environment the functions take;
  \<open>reader\<close> and \<open>writer\<close> are the two ends of the one pipe; \<open>archive\<close> is used by the
  producing task only and is part of its state (\<open>tw\<close>).
\<close>

record tarDirReader =
  queue :: "string list"
  pipe :: pipe
  initialized :: bool

definition NewTarDirReader :: tarDirReader where
  "NewTarDirReader = \<lparr>queue = [], pipe = NilPipe, initialized = False\<rparr>"

text \<open>
  \<open>go t.writeQueue()\<close>: the pipe with the producing task on it, that is, the writes of
  the task in order and the way it ends after them.
\<close>

definition launch :: "env \<Rightarrow> string list \<Rightarrow> pipe" where
  "launch ev q =
     (case writeQueue ev q new_producer of
        (oc, s) \<Rightarrow> Producing (concat (map (blocks_of ev) (out s))) oc)"

text \<open>
  \<open>init\<close>: nothing when the flag is set; otherwise the flag, the pipe, the walk, and
  the producing task only when the walk did not fail.
\<close>

definition init :: "env \<Rightarrow> tarDirReader \<Rightarrow> error option \<times> tarDirReader" where
  "init ev t =
     (if initialized t then (None, t)
      else let t1 = t\<lparr>initialized := True, pipe := NoWriter\<rparr>
           in (case WalkDir (root ev) (queue t1) of
                 (Some e, q) \<Rightarrow> (Some e, t1\<lparr>queue := q\<rparr>)
               | (None, q) \<Rightarrow> (None, t1\<lparr>queue := q, pipe := launch ev q\<rparr>)))"

text \<open>
  What a call of \<open>Read\<close> does: it returns bytes and an error value (\<open>n\<close> is the number
  of bytes), or it never returns because nothing more will ever be written to the pipe,
  or the process ends in a panic before it returns.
\<close>

datatype read_result = Returns "byte list" "error option" | Blocks | ProcessPanic error

text \<open>What the read that finds nothing more written does, by the way the task ends.\<close>

fun task_end :: "outcome \<Rightarrow> read_result" where
  "task_end Returned = Returns [] (Some EOF)"
| "task_end (Panicked e) = ProcessPanic e"
| "task_end Stuck = Blocks"

text \<open>
  \<open>t.reader.Read(p)\<close> with \<open>len(p) = n\<close>. A read tells the writing task how many bytes it
  took before it returns. So when it takes the last bytes of the last write of a task
  that then panics, the panic of the task and the return of the read race, and the
  panic ends the whole process: \<open>overtaken\<close> says that it does so before the read has
  returned. No other read can be overtaken, since the task waits in a write until a
  read has taken all its bytes.
\<close>

fun pipeRead :: "pipe \<Rightarrow> nat \<Rightarrow> bool \<Rightarrow> read_result \<times> pipe" where
  "pipeRead NilPipe n overtaken = (ProcessPanic ErrNilPointer, NilPipe)"
| "pipeRead NoWriter n overtaken = (Blocks, NoWriter)"
| "pipeRead (Producing [] oc) n overtaken = (task_end oc, Producing [] oc)"
| "pipeRead (Producing (b # bs) oc) n overtaken =
     (let rest = (if drop n b = [] then bs else drop n b # bs)
      in (case oc of
            Panicked e \<Rightarrow>
              if rest = [] \<and> overtaken then ProcessPanic e else Returns (take n b) None
          | _ \<Rightarrow> Returns (take n b) None,
          Producing rest oc))"

text \<open>\<open>Read\<close>, with the outcome of that race for this call.\<close>

definition Read :: "env \<Rightarrow> tarDirReader \<Rightarrow> nat \<Rightarrow> bool \<Rightarrow> read_result \<times> tarDirReader" where
  "Read ev t n overtaken =
     (case init ev t of
        (Some e, t1) \<Rightarrow> (Returns [] (Some e), t1)
      | (None, t1) \<Rightarrow>
          (case pipeRead (pipe t1) n overtaken of
             (r, p) \<Rightarrow> (r, t1\<lparr>pipe := p\<rparr>)))"

subsection \<open>A consumer that reads until the stream ends\<close>

text \<open>
  Successive \<open>Read\<close> calls, each with the length of its buffer and the outcome of the
  race for it, up to the first call that does not return with a nil error: the bytes
  received, and that last result (\<open>None\<close> when the list is used up before).
\<close>

fun ReadAll :: "env \<Rightarrow> tarDirReader \<Rightarrow> (nat \<times> bool) list \<Rightarrow> byte list \<times> read_result option" where
  "ReadAll ev t [] = ([], None)"
| "ReadAll ev t (c # cs) =
     (case Read ev t (fst c) (snd c) of
        (Returns b None, t1) \<Rightarrow> (case ReadAll ev t1 cs of (bs, r) \<Rightarrow> (b @ bs, r))
      | (Returns b (Some e), t1) \<Rightarrow> (b, Some (Returns b (Some e)))
      | (Blocks, t1) \<Rightarrow> ([], Some Blocks)
      | (ProcessPanic e, t1) \<Rightarrow> ([], Some (ProcessPanic e)))"

text \<open>No read of the list is overtaken by a panic of the task.\<close>

fun no_overtaking :: "(nat \<times> bool) list \<Rightarrow> bool" where
  "no_overtaking [] = True"
| "no_overtaking (c # cs) = (\<not> snd c \<and> no_overtaking cs)"

text \<open>No buffer of the list is longer than \<open>m\<close>.\<close>

fun buffers_at_most :: "nat \<Rightarrow> (nat \<times> bool) list \<Rightarrow> bool" where
  "buffers_at_most m [] = True"
| "buffers_at_most m (c # cs) = (fst c \<le> m \<and> buffers_at_most m cs)"

text \<open>The result is the end of the process by a panic.\<close>

fun is_panic :: "read_result option \<Rightarrow> bool" where
  "is_panic (Some (ProcessPanic e)) = True"
| "is_panic r = False"

text \<open>All the bytes the producing task of a fresh reader hands to the pipe.\<close>

definition stream :: "env \<Rightarrow> byte list" where
  "stream ev =
     (case init ev NewTarDirReader of
        (Some e, t1) \<Rightarrow> []
      | (None, t1) \<Rightarrow>
          (case pipe t1 of
             Producing cs oc \<Rightarrow> concat cs
           | _ \<Rightarrow> []))"

text \<open>The end-of-archive marker of the tar format: two blocks of zero bytes.\<close>

definition end_of_archive :: "byte list" where
  "end_of_archive = replicate (2 * blockSize) 0"

subsection \<open>The failures of one file\<close>

text \<open>
  The ways in which the turn of the queued path \<open>f\<close> fails with the error \<open>e\<close>, for a task
  in the state \<open>s\<close>: \<open>Open\<close> fails; \<open>Stat\<close> on the open file fails; the header cannot
  be made (\<open>FileInfoHeader\<close> refuses the file, or \<open>WriteHeader\<close> the header); the copy of
  the content fails (a read or a write of \<open>io.Copy\<close>, or the flush that closes the
  entry).
\<close>

definition open_fails :: "env \<Rightarrow> string \<Rightarrow> error \<Rightarrow> bool" where
  "open_fails ev f e = (open_file ev f = Some (Inl e))"

definition stat_fails :: "env \<Rightarrow> string \<Rightarrow> error \<Rightarrow> bool" where
  "stat_fails ev f e =
     (case open_file ev f of
        Some (Inr fl) \<Rightarrow> f_stat fl = Inl e
      | _ \<Rightarrow> False)"

definition header_fails :: "env \<Rightarrow> string \<Rightarrow> producer \<Rightarrow> error \<Rightarrow> bool" where
  "header_fails ev f s e =
     (case open_file ev f of
        Some (Inr fl) \<Rightarrow>
          (case f_stat fl of
             Inl e1 \<Rightarrow> False
           | Inr info \<Rightarrow>
               (case FileInfoHeader info [] of
                  Inl e1 \<Rightarrow> e1 = e
                | Inr hd0 \<Rightarrow> fst (WriteHeader ev (hd0\<lparr>Name := Base f\<rparr>) s) = Some e))
      | _ \<Rightarrow> False)"

definition copy_fails :: "env \<Rightarrow> string \<Rightarrow> producer \<Rightarrow> error \<Rightarrow> bool" where
  "copy_fails ev f s e =
     (case open_file ev f of
        Some (Inr fl) \<Rightarrow>
          (case f_stat fl of
             Inl e1 \<Rightarrow> False
           | Inr info \<Rightarrow>
               (case FileInfoHeader info [] of
                  Inl e1 \<Rightarrow> False
                | Inr hd0 \<Rightarrow>
                    (case WriteHeader ev (hd0\<lparr>Name := Base f\<rparr>) s of
                       (Some e1, s1) \<Rightarrow> False
                     | (None, s1) \<Rightarrow>
                         (case Copy (f_reads fl) (f_read_err fl) s1 of
                            (Some e1, s2) \<Rightarrow> e1 = e
                          | (None, s2) \<Rightarrow> fst (Flush s2) = Some e))))
      | _ \<Rightarrow> False)"

subsection \<open>The entries of the archive\<close>

text \<open>
  The entries among the items written: each header with the file bytes written after
  it, up to the next header.
\<close>

fun data_after :: "wr list \<Rightarrow> byte list" where
  "data_after [] = []"
| "data_after (WHeader h # ws) = []"
| "data_after (WData b # ws) = b @ data_after ws"
| "data_after (WZeros n # ws) = data_after ws"

fun entries_of :: "wr list \<Rightarrow> (header \<times> byte list) list" where
  "entries_of [] = []"
| "entries_of (WHeader h # ws) = (h, data_after ws) # entries_of ws"
| "entries_of (WData b # ws) = entries_of ws"
| "entries_of (WZeros n # ws) = entries_of ws"

definition entry_names :: "wr list \<Rightarrow> string list" where
  "entry_names ws = map (\<lambda>e. Name (fst e)) (entries_of ws)"

text \<open>
  Modelled from the spec: the consumer's decoded view of the archive, which is outside
  the repository. Extracting the entries in stream order into one flat directory, an
  entry replaces an earlier one of the same name (last writer wins).
\<close>

fun consumer_view :: "(header \<times> byte list) list \<Rightarrow> (string \<rightharpoonup> header \<times> byte list) \<Rightarrow> (string \<rightharpoonup> header \<times> byte list)" where
  "consumer_view [] m = m"
| "consumer_view (e # es) m = consumer_view es (m(Name (fst e) \<mapsto> e))"

subsection \<open>The paths a walk is to find\<close>

text \<open>
  The entries below a node that are not directories, in pre-order (a directory before
  its entries, the entries in the order \<open>ReadDir\<close> gives them); the directories
  themselves are left out.
\<close>

fun nondir_paths :: "string \<Rightarrow> node \<Rightarrow> string list"
  and nondir_entries :: "string \<Rightarrow> (string \<times> node) list \<Rightarrow> string list"
where
  "nondir_paths name (Node ty ents rderr) =
     (if ty \<noteq> ModeDir then [name] else nondir_entries name ents)"
| "nondir_entries name [] = []"
| "nondir_entries name (nd # ds) =
     nondir_paths (join name (fst nd)) (snd nd) @ nondir_entries name ds"

text \<open>The same walk keeping the regular files only, as the specification words it.\<close>

fun regular_paths :: "string \<Rightarrow> node \<Rightarrow> string list"
  and regular_entries :: "string \<Rightarrow> (string \<times> node) list \<Rightarrow> string list"
where
  "regular_paths name (Node ty ents rderr) =
     (if ty = ModeRegular then [name]
      else if ty = ModeDir then regular_entries name ents
      else [])"
| "regular_entries name [] = []"
| "regular_entries name (nd # ds) =
     regular_paths (join name (fst nd)) (snd nd) @ regular_entries name ds"

text \<open>No directory of the tree fails to be read.\<close>

fun readable :: "node \<Rightarrow> bool"
  and readable_entries :: "(string \<times> node) list \<Rightarrow> bool"
where
  "readable (Node ty ents rderr) =
     (if ty \<noteq> ModeDir then True else (rderr = None \<and> readable_entries ents))"
| "readable_entries [] = True"
| "readable_entries (nd # ds) = (readable (snd nd) \<and> readable_entries ds)"

subsection \<open>Example environments\<close>

text \<open>
  A stand-in for the serialisation of a header, for the examples only: the write of no
  bytes that \<open>tar.Writer\<close> makes before a header, then one block.
\<close>

definition ex_encode :: "header \<Rightarrow> error + byte list list" where
  "ex_encode h = Inr [ [], replicate blockSize 1]"

definition ex_regular :: node where
  "ex_regular = Node ModeRegular [] None"

definition ex_dir :: "(string \<times> node) list \<Rightarrow> node" where
  "ex_dir ents = Node ModeDir ents None"

definition ex_file :: "byte list \<Rightarrow> src_file" where
  "ex_file content =
     \<lparr>f_stat = Inr \<lparr>fi_name = ''f'', fi_size = length content, fi_mode = ModeRegular,
                      fi_perm = 420, fi_setuid = False, fi_setgid = False, fi_sticky = False,
                      fi_modtime = 0\<rparr>,
      f_reads = [content], f_read_err = None\<rparr>"

text \<open>A root with a file and a directory that cannot be listed.\<close>

definition ex_env_unlistable :: env where
  "ex_env_unlistable =
     \<lparr>root = Inr (ex_dir [(''a'', ex_regular), (''d'', Node ModeDir [] (Some ErrPermission))]),
      open_file = (\<lambda>p. Some (Inr (ex_file [1, 2, 3]))),
      encode = ex_encode\<rparr>"

text \<open>A root whose only file cannot be opened.\<close>

definition ex_env_unreadable :: env where
  "ex_env_unreadable =
     \<lparr>root = Inr (ex_dir [(''a'', ex_regular)]),
      open_file = (\<lambda>p. Some (Inl ErrPermission)),
      encode = ex_encode\<rparr>"

text \<open>Two files, both there when the task reaches them.\<close>

definition ex_env_two :: env where
  "ex_env_two =
     \<lparr>root = Inr (ex_dir [(''a'', ex_regular), (''b'', ex_regular)]),
      open_file = (\<lambda>p. Some (Inr (ex_file [1, 2, 3]))),
      encode = ex_encode\<rparr>"


text \<open>
  A regular file and a symbolic link to a directory: \<open>Open\<close> follows the link, \<open>Stat\<close>
  describes the directory, and reading it fails.
\<close>

definition ex_env_link :: env where
  "ex_env_link =
     \<lparr>root = Inr (ex_dir [(''a'', ex_regular), (''l'', Node ModeSymlink [] None)]),
      open_file = (\<lambda>p. if p = ''l''
                        then Some (Inr \<lparr>f_stat = Inr \<lparr>fi_name = ''target'', fi_size = 4096,
                                                        fi_mode = ModeDir, fi_perm = 493,
                                                        fi_setuid = False, fi_setgid = True,
                                                        fi_sticky = False, fi_modtime = 0\<rparr>,
                                        f_reads = [], f_read_err = Some ErrIsDirectory\<rparr>)
                        else Some (Inr (ex_file [1, 2, 3]))),
      encode = ex_encode\<rparr>"

text \<open>A regular file and a symbolic link.\<close>

definition ex_tree_symlink :: node where
  "ex_tree_symlink = ex_dir [(''f'', ex_regular), (''l'', Node ModeSymlink [] None)]"

text \<open>Two directories holding a file of the same name.\<close>

definition ex_env_collide :: env where
  "ex_env_collide =
     \<lparr>root = Inr (ex_dir [(''x'', ex_dir [(''f'', ex_regular)]),
                          (''y'', ex_dir [(''f'', ex_regular)])]),
      open_file = (\<lambda>p. if p = ''x/f'' then Some (Inr (ex_file [1])) else Some (Inr (ex_file [2, 2]))),
      encode = ex_encode\<rparr>"

text \<open>A root that holds an empty directory and nothing else.\<close>

definition ex_env_empty :: env where
  "ex_env_empty =
     \<lparr>root = Inr (ex_dir [(''d'', ex_dir [])]),
      open_file = (\<lambda>p. Some (Inl ErrNotExist)),
      encode = ex_encode\<rparr>"

text \<open>
  A regular file and a named pipe that nobody opens for writing: \<open>Open\<close> of the pipe
  never returns.
\<close>

definition ex_env_fifo :: env where
  "ex_env_fifo =
     \<lparr>root = Inr (ex_dir [(''a'', ex_regular), (''p'', Node ModeNamedPipe [] None)]),
      open_file = (\<lambda>p. if p = ''p'' then None else Some (Inr (ex_file [1, 2, 3]))),
      encode = ex_encode\<rparr>"

section \<open>Properties of the model\<close>

subsection \<open>What the steps of the task leave unchanged\<close>

lemma Flush_frame:
  "Flush s = (r, s1) \<Longrightarrow> handles s1 = handles s \<and> closed s1 = closed s"
  by (auto simp: Flush_def split: option.splits if_splits)

lemma WriteHeader_frame:
  "WriteHeader ev h s = (r, s1) \<Longrightarrow> handles s1 = handles s \<and> closed s1 = closed s"
  by (auto simp: WriteHeader_def Let_def split: prod.splits option.splits sum.splits
      dest: Flush_frame)

lemma twWrite_frame:
  "twWrite b s = (r, s1) \<Longrightarrow> handles s1 = handles s \<and> closed s1 = closed s"
  by (auto simp: twWrite_def Let_def split: option.splits if_splits)

lemma Copy_frame:
  "Copy bs rerr s = (r, s1) \<Longrightarrow> handles s1 = handles s \<and> closed s1 = closed s"
proof (induction bs rerr s rule: Copy.induct)
  case (1 rerr s)
  then show ?case by simp
next
  case (2 b bs rerr s)
  show ?case
  proof (cases "b = []")
    case True
    with 2 show ?thesis by simp
  next
    case False
    obtain r0 s0 where w: "twWrite b s = (r0, s0)" by (cases "twWrite b s")
    note fr = twWrite_frame [OF w]
    show ?thesis
    proof (cases r0)
      case None
      with 2(3) False w have "Copy bs rerr s0 = (r, s1)" by simp
      with 2(2) [OF False w [symmetric]] None fr show ?thesis by simp
    next
      case (Some e)
      with 2(3) False w fr show ?thesis by auto
    qed
  qed
qed

lemma writeFile_body_frame:
  "writeFile_body ev fl f s = (r, s1) \<Longrightarrow> handles s1 = handles s \<and> closed s1 = closed s"
  unfolding writeFile_body_def
  by (auto split: sum.splits prod.splits option.splits
      dest!: WriteHeader_frame Copy_frame Flush_frame)

lemma writeFile_frame:
  "writeFile ev f s = (r, s1) \<Longrightarrow> handles s1 = handles s \<and> closed s1 = closed s"
  unfolding writeFile_def
  by (auto split: sum.splits prod.splits option.splits dest!: writeFile_body_frame)

lemma writeFiles_frame:
  "writeFiles ev q s = (r, s1) \<Longrightarrow> handles s1 = handles s \<and> closed s1 = closed s"
proof (induction q arbitrary: s)
  case Nil
  then show ?case by simp
next
  case (Cons f q)
  obtain r0 s0 where w: "writeFile ev f s = (r0, s0)" by (cases "writeFile ev f s")
  note fr = writeFile_frame [OF w]
  show ?case
  proof (cases r0)
    case RetNil
    with Cons.prems w have "writeFiles ev q s0 = (r, s1)" by simp
    from Cons.IH [OF this] fr show ?thesis by simp
  next
    case (RetErr e)
    with Cons.prems w fr show ?thesis by auto
  next
    case NoReturn
    with Cons.prems w fr show ?thesis by auto
  qed
qed

lemma twClose_frame:
  "twClose s = (r, s1) \<Longrightarrow> handles s1 = handles s \<and> closed s1 = closed s"
  unfolding twClose_def
  by (auto split: if_splits option.splits prod.splits dest!: Flush_frame)

lemma writeQueue_handles:
  "writeQueue ev q s = (oc, s1) \<Longrightarrow> handles s1 = handles s"
  unfolding writeQueue_def
  by (auto split: option.splits prod.splits ret.splits dest!: writeFiles_frame twClose_frame)

lemma Flush_out: "Flush s = (r, s1) \<Longrightarrow> prefix (out s) (out s1)"
  by (auto simp: Flush_def split: option.splits if_splits)

lemma WriteHeader_out: "WriteHeader ev h s = (r, s1) \<Longrightarrow> prefix (out s) (out s1)"
  by (auto simp: WriteHeader_def Let_def split: prod.splits option.splits sum.splits
      dest!: Flush_out intro: prefix_order.trans)

lemma twWrite_out: "twWrite b s = (r, s1) \<Longrightarrow> prefix (out s) (out s1)"
  by (auto simp: twWrite_def Let_def split: option.splits if_splits)

lemma Copy_out: "Copy bs rerr s = (r, s1) \<Longrightarrow> prefix (out s) (out s1)"
proof (induction bs rerr s rule: Copy.induct)
  case (1 rerr s)
  then show ?case by simp
next
  case (2 b bs rerr s)
  show ?case
  proof (cases "b = []")
    case True
    with 2 show ?thesis by simp
  next
    case False
    obtain r0 s0 where w: "twWrite b s = (r0, s0)" by (cases "twWrite b s")
    note pf = twWrite_out [OF w]
    show ?thesis
    proof (cases r0)
      case None
      with 2(3) False w have "Copy bs rerr s0 = (r, s1)" by simp
      with 2(2) [OF False w [symmetric]] None have "prefix (out s0) (out s1)" by simp
      with pf show ?thesis by (rule prefix_order.trans)
    next
      case (Some e)
      with 2(3) False w pf show ?thesis by auto
    qed
  qed
qed

lemma writeFile_body_out:
  assumes "writeFile_body ev fl f s = (r, s1)"
  shows "prefix (out s) (out s1)"
proof (cases "f_stat fl")
  case (Inl e)
  with assms show ?thesis by (simp add: writeFile_body_def)
next
  case (Inr info)
  show ?thesis
  proof (cases "FileInfoHeader info []")
    case (Inl e)
    with assms Inr show ?thesis by (simp add: writeFile_body_def)
  next
    case hd: (Inr hd0)
    obtain r1 s2 where wh: "WriteHeader ev (hd0\<lparr>Name := Base f\<rparr>) s = (r1, s2)"
      by (cases "WriteHeader ev (hd0\<lparr>Name := Base f\<rparr>) s")
    note p1 = WriteHeader_out [OF wh]
    show ?thesis
    proof (cases r1)
      case (Some e)
      with assms Inr hd wh p1 show ?thesis by (auto simp: writeFile_body_def)
    next
      case None
      obtain r2 s3 where cp: "Copy (f_reads fl) (f_read_err fl) s2 = (r2, s3)"
        by (cases "Copy (f_reads fl) (f_read_err fl) s2")
      from p1 Copy_out [OF cp] have p2: "prefix (out s) (out s3)" by (rule prefix_order.trans)
      show ?thesis
      proof (cases r2)
        case (Some e)
        with assms Inr hd wh None cp p2 show ?thesis by (auto simp: writeFile_body_def)
      next
        case n2: None
        with assms Inr hd wh None cp have "Flush s3 = (r, s1)" by (simp add: writeFile_body_def)
        from p2 Flush_out [OF this] show ?thesis by (rule prefix_order.trans)
      qed
    qed
  qed
qed

lemma writeFile_out: "writeFile ev f s = (r, s1) \<Longrightarrow> prefix (out s) (out s1)"
  unfolding writeFile_def
  by (auto split: sum.splits prod.splits option.splits dest!: writeFile_body_out)

text \<open>The result of a step of the task does not depend on the files it holds open.\<close>

lemma Flush_held:
  "Flush (s\<lparr>handles := hs\<rparr>) = (fst (Flush s), (snd (Flush s))\<lparr>handles := hs\<rparr>)"
  by (simp add: Flush_def split: option.splits)

lemma WriteHeader_held:
  "WriteHeader ev h (s\<lparr>handles := hs\<rparr>) =
     (fst (WriteHeader ev h s), (snd (WriteHeader ev h s))\<lparr>handles := hs\<rparr>)"
  by (simp add: WriteHeader_def Flush_held Let_def split: prod.splits option.splits sum.splits)

lemma twWrite_held:
  "twWrite b (s\<lparr>handles := hs\<rparr>) = (fst (twWrite b s), (snd (twWrite b s))\<lparr>handles := hs\<rparr>)"
  by (simp add: twWrite_def Let_def split: option.splits)

lemma Copy_held:
  "Copy bs rerr (s\<lparr>handles := hs\<rparr>) =
     (fst (Copy bs rerr s), (snd (Copy bs rerr s))\<lparr>handles := hs\<rparr>)"
proof (induction bs rerr s rule: Copy.induct)
  case (1 rerr s)
  show ?case by simp
next
  case (2 b bs rerr s)
  show ?case
  proof (cases "b = []")
    case True
    with 2 show ?thesis by simp
  next
    case False
    obtain r0 s0 where w: "twWrite b s = (r0, s0)" by (cases "twWrite b s")
    then have wh: "twWrite b (s\<lparr>handles := hs\<rparr>) = (r0, s0\<lparr>handles := hs\<rparr>)"
      by (simp add: twWrite_held)
    show ?thesis
    proof (cases r0)
      case None
      with 2(2) [OF False w [symmetric]] False w wh show ?thesis by simp
    next
      case (Some e)
      with False w wh show ?thesis by simp
    qed
  qed
qed

lemma writeFile_body_held:
  "fst (writeFile_body ev fl f (s\<lparr>handles := hs\<rparr>)) = fst (writeFile_body ev fl f s)"
  by (auto simp: writeFile_body_def WriteHeader_held Copy_held Flush_held
      split: sum.splits prod.splits option.splits)

text \<open>
  \<open>writeFile\<close> returns an error exactly in the four ways a file can fail, and that
  error.
\<close>

lemma writeFile_fails_iff:
  "(fst (writeFile ev f s) = RetErr e) =
     (open_fails ev f e \<or> stat_fails ev f e \<or> header_fails ev f s e \<or> copy_fails ev f s e)"
proof (cases "open_file ev f")
  case None
  then show ?thesis
    by (simp add: writeFile_def open_fails_def stat_fails_def header_fails_def copy_fails_def)
next
  case (Some x)
  show ?thesis
  proof (cases x)
    case (Inl e1)
    with Some show ?thesis
      by (auto simp: writeFile_def open_fails_def stat_fails_def header_fails_def copy_fails_def)
  next
    case (Inr fl)
    have w: "fst (writeFile ev f s) =
        (case fst (writeFile_body ev fl f s) of None \<Rightarrow> RetNil | Some e1 \<Rightarrow> RetErr e1)"
      using Some Inr writeFile_body_held [where ev = ev and fl = fl and f = f and s = s and hs = "f # handles s"]
      by (cases "writeFile_body ev fl f (s\<lparr>handles := f # handles s\<rparr>)") (simp add: writeFile_def)
    have b: "(fst (writeFile_body ev fl f s) = Some e) =
        (stat_fails ev f e \<or> header_fails ev f s e \<or> copy_fails ev f s e)"
      using Some Inr
      by (auto simp: writeFile_body_def stat_fails_def header_fails_def copy_fails_def
          split: sum.splits prod.splits option.splits)
    have o: "\<not> open_fails ev f e" using Some Inr by (simp add: open_fails_def)
    from w b o show ?thesis by (auto split: option.splits)
  qed
qed

text \<open>
  After a file that was written without error the tar writer owes nothing and has no
  error, and so it is for every file of the queue when its turn comes.
\<close>

lemma Flush_ok_clean:
  "Flush s = (None, s1) \<Longrightarrow> tw_err (tw s1) = None \<and> tw_nb (tw s1) = 0 \<and> tw_pad (tw s1) = 0"
  by (auto simp: Flush_def split: option.splits if_splits)

lemma writeFile_ok_clean:
  assumes "writeFile ev f s = (RetNil, s1)"
  shows "tw_err (tw s1) = None \<and> tw_nb (tw s1) = 0 \<and> tw_pad (tw s1) = 0"
  using assms
  by (auto simp: writeFile_def writeFile_body_def
      split: option.splits sum.splits prod.splits dest!: Flush_ok_clean)

lemma writeFiles_ok_clean:
  assumes "writeFiles ev q s = (RetNil, s1)"
    and "tw_err (tw s) = None \<and> tw_nb (tw s) = 0 \<and> tw_pad (tw s) = 0"
  shows "tw_err (tw s1) = None \<and> tw_nb (tw s1) = 0 \<and> tw_pad (tw s1) = 0"
  using assms
proof (induction q arbitrary: s)
  case Nil
  then show ?case by simp
next
  case (Cons f q)
  obtain r0 s0 where w: "writeFile ev f s = (r0, s0)" by (cases "writeFile ev f s")
  with Cons.prems(1) have r0: "r0 = RetNil" by (cases r0) auto
  with Cons.prems(1) w have rest: "writeFiles ev q s0 = (RetNil, s1)" by simp
  from writeFile_ok_clean w r0 have "tw_err (tw s0) = None \<and> tw_nb (tw s0) = 0 \<and> tw_pad (tw s0) = 0"
    by blast
  from Cons.IH [OF rest this] show ?case .
qed

text \<open>
  Then \<open>WriteHeader\<close> fails only on a header that cannot be encoded, and the copy fails
  when the file gives more bytes than \<open>Stat\<close> announced, when a read fails, or when the
  file gives fewer bytes than announced.
\<close>

lemma WriteHeader_clean:
  assumes "tw_err (tw s) = None" and "tw_nb (tw s) = 0"
  shows "fst (WriteHeader ev h s) = (case encode ev h of Inl e \<Rightarrow> Some e | Inr bs \<Rightarrow> None)"
  using assms by (simp add: WriteHeader_def Flush_def Let_def split: sum.splits)

lemma Copy_result:
  assumes "tw_err (tw s) = None"
  shows "fst (Copy bs rerr s) =
           (if tw_nb (tw s) < length (concat bs) then Some ErrWriteTooLong else rerr) \<and>
         (length (concat bs) \<le> tw_nb (tw s) \<longrightarrow>
            tw_err (tw (snd (Copy bs rerr s))) = None \<and>
            tw_nb (tw (snd (Copy bs rerr s))) = tw_nb (tw s) - length (concat bs))"
  using assms
proof (induction bs rerr s rule: Copy.induct)
  case (1 rerr s)
  then show ?case by simp
next
  case (2 b bs rerr s)
  show ?case
  proof (cases "b = []")
    case True
    with 2 show ?thesis by simp
  next
    case False
    show ?thesis
    proof (cases "tw_nb (tw s) < length b")
      case True
      with False 2(3) show ?thesis by (simp add: twWrite_def Let_def)
    next
      case fits: False
      define s1 where "s1 = s\<lparr>out := out s @ [WData b], tw := (tw s)\<lparr>tw_nb := tw_nb (tw s) - length b\<rparr>\<rparr>"
      have w: "twWrite b s = (None, s1)"
        using False fits 2(3) by (simp add: twWrite_def Let_def s1_def)
      have c1: "tw_err (tw s1) = None" using 2(3) by (simp add: s1_def)
      have nb: "tw_nb (tw s1) = tw_nb (tw s) - length b" by (simp add: s1_def)
      from 2(2) [OF False w [symmetric] refl c1] False w nb fits show ?thesis by auto
    qed
  qed
qed

lemma header_fails_clean:
  assumes "tw_err (tw s) = None" and "tw_nb (tw s) = 0"
    and "open_file ev f = Some (Inr fl)" and "f_stat fl = Inr info"
  shows "header_fails ev f s e =
           (case FileInfoHeader info [] of
              Inl e1 \<Rightarrow> e1 = e
            | Inr hd0 \<Rightarrow> encode ev (hd0\<lparr>Name := Base f\<rparr>) = Inl e)"
  using assms(3,4) WriteHeader_clean [OF assms(1,2), of ev]
  by (auto simp: header_fails_def split: sum.splits)

lemma copy_fails_clean:
  assumes "tw_err (tw s) = None" and "tw_nb (tw s) = 0"
    and "open_file ev f = Some (Inr fl)" and "f_stat fl = Inr info"
    and "FileInfoHeader info [] = Inr hd0" and "encode ev (hd0\<lparr>Name := Base f\<rparr>) = Inr blocks"
    and "sz = (if isHeaderOnlyType (Typeflag hd0) then 0 else Size hd0)"
    and "len = length (concat (f_reads fl))"
  shows "copy_fails ev f s e =
           (if sz < len then e = ErrWriteTooLong
            else (case f_read_err fl of
                    Some e1 \<Rightarrow> e1 = e
                  | None \<Rightarrow> len < sz \<and> e = ErrMissedWriting (sz - len)))"
proof -
  let ?h = "hd0\<lparr>Name := Base f\<rparr>"
  obtain s1 where wh: "WriteHeader ev ?h s = (None, s1)"
    using WriteHeader_clean [OF assms(1,2), of ev ?h] assms(6)
    by (cases "WriteHeader ev ?h s") simp
  have s1: "tw_err (tw s1) = None" "tw_nb (tw s1) = sz"
    using wh assms(1,2,6,7)
    by (auto simp: WriteHeader_def Flush_def Let_def split: sum.splits)
  obtain r2 s2 where cp: "Copy (f_reads fl) (f_read_err fl) s1 = (r2, s2)"
    by (cases "Copy (f_reads fl) (f_read_err fl) s1")
  note cr = Copy_result [OF s1(1), of "f_reads fl" "f_read_err fl"]
  have cf: "copy_fails ev f s e =
      (case r2 of Some e1 \<Rightarrow> e1 = e | None \<Rightarrow> fst (Flush s2) = Some e)"
    using assms(3,4,5) wh cp by (simp add: copy_fails_def split: option.splits)
  show ?thesis
  proof (cases "sz < len")
    case True
    with cr cp s1(2) assms(8) have "r2 = Some ErrWriteTooLong" by simp
    with cf True show ?thesis by auto
  next
    case False
    with cr cp s1(2) assms(8) have r2: "r2 = f_read_err fl"
      and t2: "tw_err (tw s2) = None" "tw_nb (tw s2) = sz - len"
      by simp_all
    show ?thesis
    proof (cases "f_read_err fl")
      case (Some e1)
      with cf r2 False show ?thesis by auto
    next
      case None
      with cf r2 t2 False show ?thesis by (auto simp: Flush_def)
    qed
  qed
qed

subsection \<open>The entries the task writes\<close>

lemma entry_names_append: "entry_names (ws @ ws') = entry_names ws @ entry_names ws'"
  unfolding entry_names_def
  by (induction ws rule: entries_of.induct) simp_all

lemma entry_names_simps:
  "entry_names [] = []"
  "entry_names [WHeader h] = [Name h]"
  "entry_names [WData b] = []"
  "entry_names [WZeros n] = []"
  "entry_names [WZeros n, WZeros m] = []"
  by (simp_all add: entry_names_def)

lemma Flush_names:
  "Flush s = (r, s1) \<Longrightarrow> entry_names (out s1) = entry_names (out s)"
  by (auto simp: Flush_def entry_names_append entry_names_simps split: option.splits if_splits)

lemma WriteHeader_names:
  "WriteHeader ev h s = (r, s1) \<Longrightarrow>
     entry_names (out s1) = entry_names (out s) @ (if r = None then [Name h] else [])"
  by (auto simp: WriteHeader_def Let_def entry_names_append entry_names_simps
      split: prod.splits option.splits sum.splits dest: Flush_names)

lemma twWrite_names:
  "twWrite b s = (r, s1) \<Longrightarrow> entry_names (out s1) = entry_names (out s)"
  by (auto simp: twWrite_def Let_def entry_names_append entry_names_simps
      split: option.splits if_splits)

lemma Copy_names:
  "Copy bs rerr s = (r, s1) \<Longrightarrow> entry_names (out s1) = entry_names (out s)"
proof (induction bs rerr s rule: Copy.induct)
  case (1 rerr s)
  then show ?case by simp
next
  case (2 b bs rerr s)
  show ?case
  proof (cases "b = []")
    case True
    with 2 show ?thesis by simp
  next
    case False
    obtain r0 s0 where w: "twWrite b s = (r0, s0)" by (cases "twWrite b s")
    note nm = twWrite_names [OF w]
    show ?thesis
    proof (cases r0)
      case None
      with 2(3) False w have "Copy bs rerr s0 = (r, s1)" by simp
      with 2(2) [OF False w [symmetric]] None nm show ?thesis by simp
    next
      case (Some e)
      with 2(3) False w nm show ?thesis by auto
    qed
  qed
qed

text \<open>
  The entries \<open>writeFile\<close> adds: none, or one whose name is the base name of the path;
  exactly one when it succeeds.
\<close>

lemma writeFile_body_names:
  "writeFile_body ev fl f s = (r, s1) \<Longrightarrow>
     entry_names (out s1) = entry_names (out s) @ [Base f] \<or>
     (r \<noteq> None \<and> entry_names (out s1) = entry_names (out s))"
  unfolding writeFile_body_def
  by (auto split: sum.splits prod.splits option.splits
      dest!: WriteHeader_names Copy_names Flush_names)

lemma writeFile_names:
  "writeFile ev f s = (r, s1) \<Longrightarrow>
     entry_names (out s1) = entry_names (out s) @ [Base f] \<or>
     (r \<noteq> RetNil \<and> entry_names (out s1) = entry_names (out s))"
  unfolding writeFile_def
  by (auto split: sum.splits prod.splits option.splits dest!: writeFile_body_names)

lemma writeFiles_names:
  "writeFiles ev q s = (r, s1) \<Longrightarrow>
     \<exists>k. k \<le> length q \<and> (r = RetNil \<longrightarrow> k = length q) \<and>
         entry_names (out s1) = entry_names (out s) @ map Base (take k q)"
proof (induction q arbitrary: s)
  case Nil
  then show ?case by simp
next
  case (Cons f q)
  obtain r0 s0 where w: "writeFile ev f s = (r0, s0)" by (cases "writeFile ev f s")
  note nm = writeFile_names [OF w]
  show ?case
  proof (cases "r0 = RetNil")
    case True
    with Cons.prems w have rest: "writeFiles ev q s0 = (r, s1)" by simp
    from Cons.IH [OF rest] obtain k where
      k: "k \<le> length q" "r = RetNil \<longrightarrow> k = length q"
         "entry_names (out s1) = entry_names (out s0) @ map Base (take k q)"
      by blast
    from nm True have "entry_names (out s0) = entry_names (out s) @ [Base f]" by simp
    with k have "Suc k \<le> length (f # q) \<and> (r = RetNil \<longrightarrow> Suc k = length (f # q)) \<and>
        entry_names (out s1) = entry_names (out s) @ map Base (take (Suc k) (f # q))"
      by simp
    then show ?thesis by blast
  next
    case False
    with Cons.prems w have eq: "r = r0" "s1 = s0" by (cases r0; simp)+
    from nm show ?thesis
    proof
      assume "entry_names (out s0) = entry_names (out s) @ [Base f]"
      with eq False have "Suc 0 \<le> length (f # q) \<and> (r = RetNil \<longrightarrow> Suc 0 = length (f # q)) \<and>
        entry_names (out s1) = entry_names (out s) @ map Base (take (Suc 0) (f # q))"
        by simp
      then show ?thesis by blast
    next
      assume "r0 \<noteq> RetNil \<and> entry_names (out s0) = entry_names (out s)"
      with eq have "0 \<le> length (f # q) \<and> (r = RetNil \<longrightarrow> 0 = length (f # q)) \<and>
        entry_names (out s1) = entry_names (out s) @ map Base (take 0 (f # q))"
        by simp
      then show ?thesis by blast
    qed
  qed
qed

lemma twClose_names:
  "twClose s = (r, s1) \<Longrightarrow> entry_names (out s1) = entry_names (out s)"
  unfolding twClose_def
  by (auto simp: entry_names_append entry_names_simps
      split: if_splits option.splits prod.splits dest!: Flush_names)

lemma writeQueue_names:
  assumes "writeQueue ev q new_producer = (oc, s1)"
  shows "\<exists>k. k \<le> length q \<and> (oc = Returned \<longrightarrow> k = length q) \<and>
             entry_names (out s1) = map Base (take k q)"
proof -
  obtain r s0 where w: "writeFiles ev q new_producer = (r, s0)"
    by (cases "writeFiles ev q new_producer")
  from writeFiles_names [OF w] obtain k where
    k: "k \<le> length q" "r = RetNil \<longrightarrow> k = length q"
       "entry_names (out s0) = map Base (take k q)"
    by (auto simp: new_producer_def entry_names_simps)
  show ?thesis
  proof (cases r)
    case (RetErr e)
    with assms w have "oc = Panicked e" "s1 = s0" by (auto simp: writeQueue_def)
    with k show ?thesis by auto
  next
    case NoReturn
    with assms w have "oc = Stuck" "s1 = s0" by (auto simp: writeQueue_def)
    with k show ?thesis by auto
  next
    case RetNil
    obtain r2 s2 where c: "twClose s0 = (r2, s2)" by (cases "twClose s0")
    from assms w RetNil c have "entry_names (out s1) = entry_names (out s2)"
      by (auto simp: writeQueue_def split: option.splits)
    with twClose_names [OF c] k RetNil show ?thesis by auto
  qed
qed

lemma writeFiles_append:
  "writeFiles ev pre s0 = (RetNil, s) \<Longrightarrow> writeFiles ev (pre @ rest) s0 = writeFiles ev rest s"
proof (induction pre arbitrary: s0)
  case Nil
  then show ?case by simp
next
  case (Cons f pre)
  obtain r1 s1 where w: "writeFile ev f s0 = (r1, s1)" by (cases "writeFile ev f s0")
  with Cons.prems have "r1 = RetNil" by (cases r1) auto
  with Cons.prems w Cons.IH [of s1] show ?case by simp
qed

lemma consumer_view_snoc:
  "consumer_view (es @ [e]) m = (consumer_view es m)(Name (fst e) \<mapsto> e)"
  by (induction es arbitrary: m) simp_all

text \<open>The view holds, for a name, the last entry of that name.\<close>

lemma consumer_view_last:
  assumes "i < length es"
    and "\<forall>j. i < j \<and> j < length es \<longrightarrow> Name (fst (es ! j)) \<noteq> Name (fst (es ! i))"
  shows "consumer_view es m (Name (fst (es ! i))) = Some (es ! i)"
  using assms
proof (induction es rule: rev_induct)
  case Nil
  then show ?case by simp
next
  case (snoc e es)
  show ?case
  proof (cases "i = length es")
    case True
    then show ?thesis by (simp add: consumer_view_snoc)
  next
    case False
    with snoc.prems(1) have i: "i < length es" by simp
    have later: "\<forall>j. i < j \<and> j < length es \<longrightarrow> Name (fst (es ! j)) \<noteq> Name (fst (es ! i))"
    proof (intro allI impI)
      fix j assume j: "i < j \<and> j < length es"
      with snoc.prems(2) have "Name (fst ((es @ [e]) ! j)) \<noteq> Name (fst ((es @ [e]) ! i))"
        by simp
      with j i show "Name (fst (es ! j)) \<noteq> Name (fst (es ! i))"
        by (simp add: nth_append)
    qed
    from i have "i < length es \<and> length es < length (es @ [e])" by simp
    with snoc.prems(2) have "Name (fst ((es @ [e]) ! length es)) \<noteq> Name (fst ((es @ [e]) ! i))"
      by blast
    with i have ne: "Name (fst e) \<noteq> Name (fst (es ! i))" by (simp add: nth_append)
    from snoc.IH [OF i later] ne i show ?thesis
      by (simp add: consumer_view_snoc nth_append)
  qed
qed

subsection \<open>The walk\<close>

lemma walk_lists:
  "walkDir name d q = (None, q1) \<Longrightarrow> q1 = q @ nondir_paths name d"
  "walkEntries name ds q = (None, q1) \<Longrightarrow> q1 = q @ nondir_entries name ds"
proof (induction name d q and name ds q arbitrary: q1 and q1 rule: walkDir_walkEntries.induct)
  case (1 name ty ents rderr q)
  show ?case
  proof (cases "ty = ModeDir")
    case False
    with 1(2) show ?thesis by (simp add: walkFn_def)
  next
    case True
    with 1(2) have rd: "rderr = None" and we: "walkEntries name ents q = (None, q1)"
      by (auto simp: walkFn_def split: option.splits)
    have "walkFn name (Node ty ents rderr) None q = (None, q)"
      using True by (simp add: walkFn_def)
    from 1(1) [OF this [symmetric] refl _ rd we] True show ?thesis by simp
  qed
next
  case (2 name q)
  then show ?case by simp
next
  case (3 name nd ds q)
  obtain r0 q0 where w: "walkDir (join name (fst nd)) (snd nd) q = (r0, q0)"
    by (cases "walkDir (join name (fst nd)) (snd nd) q")
  with 3(3) have r0: "r0 = None" and rest: "walkEntries name ds q0 = (None, q1)"
    by (auto split: option.splits)
  from 3(1) w r0 have q0: "q0 = q @ nondir_paths (join name (fst nd)) (snd nd)" by simp
  from 3(2) [OF w [symmetric] _ rest] r0 have "q1 = q0 @ nondir_entries name ds" by simp
  with q0 show ?case by simp
qed

lemma walk_readable:
  "readable d \<Longrightarrow> fst (walkDir name d q) = None"
  "readable_entries ds \<Longrightarrow> fst (walkEntries name ds q) = None"
proof (induction name d q and name ds q rule: walkDir_walkEntries.induct)
  case (1 name ty ents rderr q)
  show ?case
  proof (cases "ty = ModeDir")
    case False
    then show ?thesis by (simp add: walkFn_def)
  next
    case True
    with 1(2) have rd: "rderr = None" and re: "readable_entries ents" by auto
    have "walkFn name (Node ty ents rderr) None q = (None, q)"
      using True by (simp add: walkFn_def)
    from 1(1) [OF this [symmetric] refl _ rd re] True rd show ?thesis
      by (simp add: walkFn_def)
  qed
next
  case (2 name q)
  then show ?case by simp
next
  case (3 name nd ds q)
  obtain r0 q0 where w: "walkDir (join name (fst nd)) (snd nd) q = (r0, q0)"
    by (cases "walkDir (join name (fst nd)) (snd nd) q")
  from 3(3) have a: "readable (snd nd)" and b: "readable_entries ds" by auto
  from 3(1) [OF a] w have r0: "r0 = None" by simp
  from 3(2) [OF w [symmetric] _ b] r0 w show ?case by simp
qed

text \<open>The base name of a path that ends in a name without a slash is that name.\<close>

lemma Base_last_name:
  assumes "n \<noteq> []" and "CHR ''/'' \<notin> set n" and "p = n \<or> p = d @ ''/'' @ n"
  shows "Base p = n"
proof -
  from assms(1) obtain c cs where rn: "rev n = c # cs" by (cases "rev n") auto
  then have "c \<in> set n" by (metis list.set_intros(1) set_rev)
  with assms(2) have c: "c \<noteq> CHR ''/''" by auto
  from assms(3) obtain xs where rp: "rev p = rev n @ xs" "xs = [] \<or> hd xs = CHR ''/''"
    by auto
  have p_ne: "p \<noteq> []" using assms(1,3) by auto
  have strip: "rev (dropWhile (\<lambda>c. c = CHR ''/'') (rev p)) = p"
    using rp(1) rn c by simp
  have "takeWhile (\<lambda>c. c \<noteq> CHR ''/'') (rev n @ xs) = rev n"
  proof (cases xs)
    case Nil
    with assms(2) show ?thesis by (auto simp: takeWhile_eq_all_conv)
  next
    case (Cons x xs')
    with rp(2) have "x = CHR ''/''" by simp
    with Cons assms(2) show ?thesis by (auto simp: takeWhile_tail)
  qed
  with rp(1) have lst: "rev (takeWhile (\<lambda>c. c \<noteq> CHR ''/'') (rev p)) = n" by simp
  show ?thesis
    unfolding Base_def Let_def strip lst using p_ne assms(1) by simp
qed

lemma Base_join:
  assumes "n \<noteq> []" and "CHR ''/'' \<notin> set n"
  shows "Base (join d n) = n"
  using Base_last_name [OF assms, of "join d n" d] by (simp add: join_def)

lemma Base_join_valid: "valid_name n \<Longrightarrow> Base (join d n) = n"
  using Base_join [of n d] by (simp add: valid_name_def)

lemma walk_succeeds_readable:
  "fst (walkDir name d q) = None \<Longrightarrow> readable d"
  "fst (walkEntries name ds q) = None \<Longrightarrow> readable_entries ds"
proof (induction name d q and name ds q rule: walkDir_walkEntries.induct)
  case (1 name ty ents rderr q)
  show ?case
  proof (cases "ty = ModeDir")
    case False
    then show ?thesis by simp
  next
    case True
    have fn: "walkFn name (Node ty ents rderr) None q = (None, q)"
      using True by (simp add: walkFn_def)
    from 1(2) True fn have rd: "rderr = None"
      by (cases rderr) (simp_all add: walkFn_def)
    with 1(2) True fn have "fst (walkEntries name ents q) = None" by simp
    from 1(1) [OF fn [symmetric] refl _ rd this] True rd show ?thesis by simp
  qed
next
  case (2 name q)
  then show ?case by simp
next
  case (3 name nd ds q)
  obtain r0 q0 where w: "walkDir (join name (fst nd)) (snd nd) q = (r0, q0)"
    by (cases "walkDir (join name (fst nd)) (snd nd) q")
  from 3(3) w have r0: "r0 = None" by (cases r0) simp_all
  with 3(3) w have rest: "fst (walkEntries name ds q0) = None" by simp
  from 3(1) w r0 have a: "readable (snd nd)" by simp
  from 3(2) [OF w [symmetric] _ rest] r0 have "readable_entries ds" by simp
  with a show ?case by simp
qed

lemma regular_among_nondir:
  "subseq (regular_paths name d) (nondir_paths name d)"
  "subseq (regular_entries name ds) (nondir_entries name ds)"
proof (induction name d and name ds rule: regular_paths_regular_entries.induct)
  case (1 name ty ents rderr)
  then show ?case by (cases ty) simp_all
next
  case (2 name)
  show ?case by simp
next
  case (3 name nd ds)
  then show ?case by (simp add: list_emb_append_mono)
qed

subsection \<open>Reading from the pipe\<close>

lemma init_initialized: "init ev t = (r, t1) \<Longrightarrow> initialized t1"
  by (auto simp: init_def Let_def split: if_splits prod.splits option.splits)

lemma init_again: "initialized t \<Longrightarrow> init ev t = (None, t)"
  by (simp add: init_def)

lemma Read_initialized:
  "initialized t \<Longrightarrow>
     Read ev t n ov = (fst (pipeRead (pipe t) n ov), t\<lparr>pipe := snd (pipeRead (pipe t) n ov)\<rparr>)"
  by (simp add: Read_def init_again split: prod.splits)

lemma Read_after_init:
  assumes "init ev t = (None, t1)"
  shows "Read ev t n ov = Read ev' t1 n ov"
proof -
  have "initialized t1" using assms by (rule init_initialized)
  then have "init ev' t1 = (None, t1)" by (rule init_again)
  with assms show ?thesis by (simp add: Read_def)
qed

lemma ReadAll_after_init:
  assumes "init ev t = (None, t1)"
  shows "ReadAll ev t sch = ReadAll ev t1 sch"
proof (cases sch)
  case Nil
  then show ?thesis by simp
next
  case (Cons c cs)
  then show ?thesis using Read_after_init [OF assms, of "fst c" "snd c" ev] by simp
qed

text \<open>A read that takes bytes of a write returns them, unless a panic overtakes it.\<close>

lemma pipeRead_returns:
  assumes "\<not> (ov \<and> drop n b = [] \<and> cs = [] \<and> (\<exists>e. oc = Panicked e))"
  shows "pipeRead (Producing (b # cs) oc) n ov =
     (Returns (take n b) None, Producing (if drop n b = [] then cs else drop n b # cs) oc)"
  using assms by (cases oc) (auto simp: Let_def)

text \<open>
  Reads from a running task: the bytes received are an initial part of what the task
  writes. A run that has ended has ended the way the task does, and it has received
  all that the task wrote, unless the task panicked and overtook the last read; then
  what is missing is what that read took.
\<close>

lemma ReadAll_Producing:
  assumes "initialized t" and "pipe t = Producing cs oc" and "ReadAll ev t sch = (bs, r)"
  shows "prefix bs (concat cs) \<and>
         (r = None \<or> r = Some (task_end oc)) \<and>
         (r \<noteq> None \<and> (no_overtaking sch \<or> \<not> is_panic r) \<longrightarrow> bs = concat cs) \<and>
         (r \<noteq> None \<and> buffers_at_most m sch \<longrightarrow> length (concat cs) \<le> length bs + m)"
  using assms
proof (induction sch arbitrary: t cs bs r)
  case Nil
  then show ?case by simp
next
  case (Cons c sch)
  obtain n ov where c: "c = (n, ov)" by (cases c)
  show ?case
  proof (cases cs)
    case Nil
    with Cons.prems c have "Read ev t (fst c) (snd c) = (task_end oc, t\<lparr>pipe := Producing [] oc\<rparr>)"
      by (simp add: Read_initialized)
    with Cons.prems(3) Nil show ?thesis by (cases oc) auto
  next
    case cs: (Cons b cs')
    show ?thesis
    proof (cases "ov \<and> drop n b = [] \<and> cs' = [] \<and> (\<exists>e. oc = Panicked e)")
      case True
      then obtain e where e: "oc = Panicked e" by blast
      from True e cs c Cons.prems(1,2)
      have "Read ev t (fst c) (snd c) = (ProcessPanic e, t\<lparr>pipe := Producing [] oc\<rparr>)"
        by (simp add: Read_initialized)
      with Cons.prems(3) have res: "bs = []" "r = Some (ProcessPanic e)" by simp_all
      from True cs have "length (concat cs) \<le> n" by simp
      with res e c True show ?thesis by simp
    next
      case False
      define cs1 where "cs1 = (if drop n b = [] then cs' else drop n b # cs')"
      define t1 where "t1 = t\<lparr>pipe := Producing cs1 oc\<rparr>"
      have rd: "Read ev t (fst c) (snd c) = (Returns (take n b) None, t1)"
        using Cons.prems(1,2) cs c pipeRead_returns [OF False]
        by (simp add: Read_initialized t1_def cs1_def)
      obtain bs' r' where ra: "ReadAll ev t1 sch = (bs', r')" by (cases "ReadAll ev t1 sch")
      have t1: "initialized t1" "pipe t1 = Producing cs1 oc"
        using Cons.prems(1) by (simp_all add: t1_def)
      from Cons.IH [OF t1 ra]
      have ih: "prefix bs' (concat cs1)" "r' = None \<or> r' = Some (task_end oc)"
        "r' \<noteq> None \<and> (no_overtaking sch \<or> \<not> is_panic r') \<longrightarrow> bs' = concat cs1"
        "r' \<noteq> None \<and> buffers_at_most m sch \<longrightarrow> length (concat cs1) \<le> length bs' + m"
        by simp_all
      have cc: "concat cs = take n b @ concat cs1"
        using cs by (simp add: cs1_def)
      from Cons.prems(3) rd ra have eq: "bs = take n b @ bs'" "r = r'" by simp_all
      from ih eq cc show ?thesis by auto
    qed
  qed
qed

text \<open>
  Reads with a buffer that is not empty reach the end of the task: each takes a byte
  or more, or finishes a write of no bytes.
\<close>

lemma ReadAll_reaches_end:
  assumes "initialized t" and "pipe t = Producing cs oc" and "0 < n"
    and "length (concat cs) + length cs < k"
  shows "snd (ReadAll ev t (replicate k (n, ov))) = Some (task_end oc)"
  using assms
proof (induction k arbitrary: t cs)
  case 0
  then show ?case by simp
next
  case (Suc k)
  show ?case
  proof (cases cs)
    case Nil
    with Suc.prems have "Read ev t n ov = (task_end oc, t\<lparr>pipe := Producing [] oc\<rparr>)"
      by (simp add: Read_initialized)
    then show ?thesis by (cases oc) auto
  next
    case cs: (Cons b cs')
    show ?thesis
    proof (cases "ov \<and> drop n b = [] \<and> cs' = [] \<and> (\<exists>e. oc = Panicked e)")
      case True
      then obtain e where e: "oc = Panicked e" by blast
      from True e cs Suc.prems(1,2)
      have "Read ev t n ov = (ProcessPanic e, t\<lparr>pipe := Producing [] oc\<rparr>)"
        by (simp add: Read_initialized)
      with e show ?thesis by simp
    next
      case False
      define cs1 where "cs1 = (if drop n b = [] then cs' else drop n b # cs')"
      define t1 where "t1 = t\<lparr>pipe := Producing cs1 oc\<rparr>"
      have rd: "Read ev t n ov = (Returns (take n b) None, t1)"
        using Suc.prems(1,2) cs pipeRead_returns [OF False]
        by (simp add: Read_initialized t1_def cs1_def)
      have t1: "initialized t1" "pipe t1 = Producing cs1 oc"
        using Suc.prems(1) by (simp_all add: t1_def)
      have "length (concat cs1) + length cs1 < length (concat cs) + length cs"
        using cs Suc.prems(3) by (auto simp: cs1_def)
      with Suc.prems(4) have "length (concat cs1) + length cs1 < k" by simp
      from Suc.IH [OF t1 Suc.prems(3) this] rd show ?thesis
        by (cases "ReadAll ev t1 (replicate k (n, ov))") simp
    qed
  qed
qed

lemma launch_empty:
  "launch ev [] = Producing [ [], replicate blockSize 0, replicate blockSize 0] Returned"
  by (simp add: launch_def writeQueue_def twClose_def Flush_def new_producer_def NewWriter_def)

lemma init_walk_ok:
  assumes "WalkDir (root ev) [] = (None, q)"
  shows "init ev NewTarDirReader =
     (None, \<lparr>queue = q, pipe = launch ev q, initialized = True\<rparr>)"
  using assms by (simp add: init_def NewTarDirReader_def)

lemma init_walk_failed:
  assumes "WalkDir (root ev) [] = (Some e, q)"
  shows "init ev NewTarDirReader =
     (Some e, \<lparr>queue = q, pipe = NoWriter, initialized = True\<rparr>)"
  using assms by (simp add: init_def NewTarDirReader_def)

lemma launch_Producing: "\<exists>cs oc. launch ev q = Producing cs oc"
  by (simp add: launch_def split: prod.splits)

text \<open>
  Reads of a fresh reader whose walk succeeded, by the writes and the end of its task.
\<close>

lemma ReadAll_launched:
  assumes "WalkDir (root ev) [] = (None, q)" and "launch ev q = Producing cs oc"
    and "ReadAll ev NewTarDirReader sch = (bs, r)"
  shows "stream ev = concat cs \<and>
         prefix bs (stream ev) \<and>
         (r = None \<or> r = Some (task_end oc)) \<and>
         (r \<noteq> None \<and> (no_overtaking sch \<or> \<not> is_panic r) \<longrightarrow> bs = stream ev) \<and>
         (r \<noteq> None \<and> buffers_at_most m sch \<longrightarrow> length (stream ev) \<le> length bs + m)"
proof -
  let ?t1 = "\<lparr>queue = q, pipe = launch ev q, initialized = True\<rparr>"
  have i: "init ev NewTarDirReader = (None, ?t1)" using assms(1) by (rule init_walk_ok)
  have t1: "initialized ?t1" "pipe ?t1 = Producing cs oc" using assms(2) by simp_all
  have s: "stream ev = concat cs" using i assms(2) by (simp add: stream_def)
  have ra: "ReadAll ev ?t1 sch = (bs, r)"
    using assms(3) ReadAll_after_init [OF i, of sch] by simp
  from ReadAll_Producing [OF t1 ra, of m] s show ?thesis by simp
qed

lemma ReadAll_walk_failed:
  assumes "WalkDir (root ev) [] = (Some e, q)"
  shows "stream ev = [] \<and>
         ReadAll ev NewTarDirReader (c # sch) = ([], Some (Returns [] (Some e)))"
  using init_walk_failed [OF assms] by (simp add: stream_def Read_def)

lemma ReadAll_fresh_ends_at:
  assumes "WalkDir (root ev) [] = (None, q)" and "launch ev q = Producing cs oc"
    and "0 < n" and "length (concat cs) + length cs < k"
  shows "snd (ReadAll ev NewTarDirReader (replicate k (n, ov))) = Some (task_end oc)"
proof -
  let ?t1 = "\<lparr>queue = q, pipe = launch ev q, initialized = True\<rparr>"
  have i: "init ev NewTarDirReader = (None, ?t1)" using assms(1) by (rule init_walk_ok)
  have t1: "initialized ?t1" "pipe ?t1 = Producing cs oc" using assms(2) by simp_all
  from ReadAll_reaches_end [OF t1 assms(3,4), of ev ov]
    ReadAll_after_init [OF i, of "replicate k (n, ov)"]
  show ?thesis by simp
qed

lemma ReadAll_fresh_ends:
  assumes "0 < n"
  shows "\<exists>k. snd (ReadAll ev NewTarDirReader (replicate k (n, ov))) \<noteq> None"
proof -
  obtain r q where w: "WalkDir (root ev) [] = (r, q)" by (cases "WalkDir (root ev) []")
  show ?thesis
  proof (cases r)
    case (Some e)
    with w ReadAll_walk_failed [of ev e q "(n, ov)" "[]"]
    have "snd (ReadAll ev NewTarDirReader (replicate (Suc 0) (n, ov))) \<noteq> None"
      by simp
    then show ?thesis by blast
  next
    case None
    obtain cs oc where l: "launch ev q = Producing cs oc"
      using launch_Producing by blast
    define k where "k = Suc (length (concat cs) + length cs)"
    have "length (concat cs) + length cs < k" by (simp add: k_def)
    from ReadAll_fresh_ends_at [OF _ l assms this, where ov = ov] None w
    have "snd (ReadAll ev NewTarDirReader (replicate k (n, ov))) \<noteq> None" by simp
    then show ?thesis by blast
  qed
qed

lemma no_overtaking_replicate: "no_overtaking (replicate k (n, False))"
  by (induction k) simp_all

lemma buffers_at_most_replicate: "n \<le> m \<Longrightarrow> buffers_at_most m (replicate k (n, ov))"
  by (induction k) simp_all




text \<open>
  Reads of a fresh reader: there is one result that ends every run of reads; the bytes
  of a run are an initial part of the stream, and all of it when the run has ended,
  unless that end is a panic that overtook the last read.
\<close>

lemma ReadAll_fresh:
  "\<exists>R. \<forall>sch m.
      prefix (fst (ReadAll ev NewTarDirReader sch)) (stream ev) \<and>
      (snd (ReadAll ev NewTarDirReader sch) = None \<or> snd (ReadAll ev NewTarDirReader sch) = Some R) \<and>
      (snd (ReadAll ev NewTarDirReader sch) \<noteq> None \<and>
         (no_overtaking sch \<or> \<not> is_panic (snd (ReadAll ev NewTarDirReader sch))) \<longrightarrow>
       fst (ReadAll ev NewTarDirReader sch) = stream ev) \<and>
      (snd (ReadAll ev NewTarDirReader sch) \<noteq> None \<and> buffers_at_most m sch \<longrightarrow>
       length (stream ev) \<le> length (fst (ReadAll ev NewTarDirReader sch)) + m)"
proof -
  obtain r q where w: "WalkDir (root ev) [] = (r, q)" by (cases "WalkDir (root ev) []")
  show ?thesis
  proof (cases r)
    case (Some e)
    with w have f: "WalkDir (root ev) [] = (Some e, q)" by simp
    have "prefix (fst (ReadAll ev NewTarDirReader sch)) (stream ev) \<and>
      (snd (ReadAll ev NewTarDirReader sch) = None \<or>
       snd (ReadAll ev NewTarDirReader sch) = Some (Returns [] (Some e))) \<and>
      (snd (ReadAll ev NewTarDirReader sch) \<noteq> None \<and>
         (no_overtaking sch \<or> \<not> is_panic (snd (ReadAll ev NewTarDirReader sch))) \<longrightarrow>
       fst (ReadAll ev NewTarDirReader sch) = stream ev) \<and>
      (snd (ReadAll ev NewTarDirReader sch) \<noteq> None \<and> buffers_at_most m sch \<longrightarrow>
       length (stream ev) \<le> length (fst (ReadAll ev NewTarDirReader sch)) + m)" for sch m
    proof (cases sch)
      case Nil
      then show ?thesis by simp
    next
      case (Cons c cs)
      with ReadAll_walk_failed [OF f, of c cs] show ?thesis by simp
    qed
    then show ?thesis by blast
  next
    case None
    with w have ok: "WalkDir (root ev) [] = (None, q)" by simp
    obtain cs oc where l: "launch ev q = Producing cs oc"
      using launch_Producing by blast
    have "prefix (fst (ReadAll ev NewTarDirReader sch)) (stream ev) \<and>
      (snd (ReadAll ev NewTarDirReader sch) = None \<or>
       snd (ReadAll ev NewTarDirReader sch) = Some (task_end oc)) \<and>
      (snd (ReadAll ev NewTarDirReader sch) \<noteq> None \<and>
         (no_overtaking sch \<or> \<not> is_panic (snd (ReadAll ev NewTarDirReader sch))) \<longrightarrow>
       fst (ReadAll ev NewTarDirReader sch) = stream ev) \<and>
      (snd (ReadAll ev NewTarDirReader sch) \<noteq> None \<and> buffers_at_most m sch \<longrightarrow>
       length (stream ev) \<le> length (fst (ReadAll ev NewTarDirReader sch)) + m)" for sch m
    proof -
      obtain bs r where ra: "ReadAll ev NewTarDirReader sch = (bs, r)"
        by (cases "ReadAll ev NewTarDirReader sch")
      from ReadAll_launched [OF ok l ra, of m] ra show ?thesis by auto
    qed
    then show ?thesis by blast
  qed
qed

subsection \<open>Runs of the examples\<close>

lemmas producer_defs =
  writeQueue_def writeFile_def writeFile_body_def FileInfoHeader_def mk_header_def header_mode_def
  WriteHeader_def Flush_def twWrite_def twClose_def new_producer_def NewWriter_def
  isHeaderOnlyType_def blockPadding_def blockSize_def Let_def

lemma walk_two: "WalkDir (root ex_env_two) [] = (None, [''a'', ''b''])"
  by (simp add: ex_env_two_def WalkDir_def ex_dir_def ex_regular_def walkFn_def join_def)

lemma launch_two:
  "launch ex_env_two [''a'', ''b''] =
     Producing [ [], [], replicate 512 1, [1, 2, 3], replicate 509 0,
                [], [], replicate 512 1, [1, 2, 3], replicate 509 0,
                [], replicate 512 0, replicate 512 0] Returned"
  by (simp add: launch_def producer_defs ex_env_two_def ex_file_def ex_encode_def)




lemma run_collide:
  "writeQueue ex_env_collide [''x/f'', ''y/f''] new_producer =
     (Returned,
      \<lparr>tw = \<lparr>tw_pad = 0, tw_nb = 0, tw_err = Some ErrWriteAfterClose\<rparr>,
       out = [WZeros 0,
              WHeader \<lparr>Name = ''f'', Size = 1, Mode = 420, ModTime = 0, Typeflag = TypeReg, Linkname = []\<rparr>,
              WData [1], WZeros 511, WZeros 0,
              WHeader \<lparr>Name = ''f'', Size = 2, Mode = 420, ModTime = 0, Typeflag = TypeReg, Linkname = []\<rparr>,
              WData [2, 2], WZeros 510, WZeros 0, WZeros 512, WZeros 512],
       handles = [], closed = True\<rparr>)"
  by (simp add: producer_defs ex_env_collide_def ex_file_def ex_encode_def Base_def)

lemma walk_unreadable_file: "WalkDir (root ex_env_unreadable) [] = (None, [''a''])"
  by (simp add: ex_env_unreadable_def WalkDir_def ex_dir_def ex_regular_def walkFn_def join_def)

lemma launch_unreadable_file:
  "launch ex_env_unreadable [''a''] = Producing [] (Panicked ErrPermission)"
  by (simp add: launch_def producer_defs ex_env_unreadable_def)

lemma walk_link: "WalkDir (root ex_env_link) [] = (None, [''a'', ''l''])"
  by (simp add: ex_env_link_def WalkDir_def ex_dir_def ex_regular_def walkFn_def join_def)

lemma run_link_first:
  "writeFiles ex_env_link [''a''] new_producer =
     (RetNil,
      \<lparr>tw = \<lparr>tw_pad = 0, tw_nb = 0, tw_err = None\<rparr>,
       out = [WZeros 0,
              WHeader \<lparr>Name = ''a'', Size = 3, Mode = 420, ModTime = 0, Typeflag = TypeReg, Linkname = []\<rparr>,
              WData [1, 2, 3], WZeros 509],
       handles = [], closed = False\<rparr>)"
  by (simp add: producer_defs ex_env_link_def ex_file_def ex_encode_def Base_def)

lemma run_link:
  "writeQueue ex_env_link [''a'', ''l''] new_producer =
     (Panicked ErrIsDirectory,
      \<lparr>tw = \<lparr>tw_pad = 0, tw_nb = 0, tw_err = None\<rparr>,
       out = [WZeros 0,
              WHeader \<lparr>Name = ''a'', Size = 3, Mode = 420, ModTime = 0, Typeflag = TypeReg, Linkname = []\<rparr>,
              WData [1, 2, 3], WZeros 509, WZeros 0,
              WHeader \<lparr>Name = ''l'', Size = 0, Mode = 1517, ModTime = 0, Typeflag = TypeDir, Linkname = []\<rparr>],
       handles = [], closed = False\<rparr>)"
  by (simp add: producer_defs ex_env_link_def ex_file_def ex_encode_def Base_def)

lemma launch_link:
  "launch ex_env_link [''a'', ''l''] =
      Producing [ [], [], replicate 512 1, [1, 2, 3], replicate 509 0, [], [], replicate 512 1]
        (Panicked ErrIsDirectory)"
  by (simp add: launch_def run_link) (simp add: ex_env_link_def ex_encode_def blockSize_def)

lemma walk_fifo: "WalkDir (root ex_env_fifo) [] = (None, [''a'', ''p''])"
  by (simp add: ex_env_fifo_def WalkDir_def ex_dir_def ex_regular_def walkFn_def join_def)

lemma run_fifo:
  "writeQueue ex_env_fifo [''a'', ''p''] new_producer =
     (Stuck,
      \<lparr>tw = \<lparr>tw_pad = 0, tw_nb = 0, tw_err = None\<rparr>,
       out = [WZeros 0,
              WHeader \<lparr>Name = ''a'', Size = 3, Mode = 420, ModTime = 0, Typeflag = TypeReg, Linkname = []\<rparr>,
              WData [1, 2, 3], WZeros 509],
       handles = [], closed = False\<rparr>)"
  by (simp add: producer_defs ex_env_fifo_def ex_file_def ex_encode_def Base_def)

lemma launch_fifo:
  "launch ex_env_fifo [''a'', ''p''] =
      Producing [ [], [], replicate 512 1, [1, 2, 3], replicate 509 0] Stuck"
  by (simp add: launch_def run_fifo) (simp add: ex_env_fifo_def ex_encode_def blockSize_def)

lemma read_first_link:
  "Read ex_env_link NewTarDirReader n ov =
     Read ex_env_link \<lparr>queue = [''a'', ''l''], pipe = launch ex_env_link [''a'', ''l''], initialized = True\<rparr> n ov"
  using Read_after_init [OF init_walk_ok [OF walk_link]] by simp

lemma header_mode_setuid:
  "header_mode \<lparr>fi_name = ''f'', fi_size = 0, fi_mode = ModeRegular, fi_perm = 493,
                 fi_setuid = True, fi_setgid = False, fi_sticky = False, fi_modtime = 0\<rparr> = 2541"
  by (simp add: header_mode_def)

section \<open>A file that fails during the pass\<close>

text \<open>
  C1, as amended: when the files before \<open>f\<close> in the queue are written and the turn of
  \<open>f\<close> fails (its \<open>Open\<close>, its \<open>Stat\<close>, the making of its header, or the copy of its
  content), \<open>writeFile\<close> returns that error and the producing task panics with it at
  once: the files after \<open>f\<close> are not touched and the pipe is not closed. What was
  written before the failure stays written and is what the stream consists of. No
  \<open>Read\<close> returns an error or the end of the stream, and none blocks for ever: each
  returns bytes of that stream with a nil error, until the panic of the task ends the
  process. By then the reads have received the whole of that stream, unless the panic
  has overtaken the read that took the last bytes written; then the bytes of that one
  read, no more than its buffer holds, are missing. Reads with any buffer that is not
  empty get to that end.
\<close>

theorem file_failure_panics:
  assumes "WalkDir (root ev) [] = (None, pre @ f # post)"
    and "writeFiles ev pre new_producer = (RetNil, s)"
    and "open_fails ev f e \<or> stat_fails ev f e \<or> header_fails ev f s e \<or> copy_fails ev f s e"
  shows "fst (writeFile ev f s) = RetErr e \<and>
         writeQueue ev (pre @ f # post) new_producer = (Panicked e, snd (writeFile ev f s)) \<and>
         \<not> closed (snd (writeFile ev f s)) \<and>
         prefix (out s) (out (snd (writeFile ev f s))) \<and>
         stream ev = concat (concat (map (blocks_of ev) (out (snd (writeFile ev f s))))) \<and>
         prefix (fst (ReadAll ev NewTarDirReader sch)) (stream ev) \<and>
         (snd (ReadAll ev NewTarDirReader sch) = None \<or>
          snd (ReadAll ev NewTarDirReader sch) = Some (ProcessPanic e)) \<and>
         (snd (ReadAll ev NewTarDirReader sch) \<noteq> None \<and> no_overtaking sch \<longrightarrow>
            fst (ReadAll ev NewTarDirReader sch) = stream ev) \<and>
         (snd (ReadAll ev NewTarDirReader sch) \<noteq> None \<and> buffers_at_most m sch \<longrightarrow>
            length (stream ev) \<le> length (fst (ReadAll ev NewTarDirReader sch)) + m) \<and>
         (0 < n \<longrightarrow>
          (\<exists>k. snd (ReadAll ev NewTarDirReader (replicate k (n, ov))) = Some (ProcessPanic e)))"
proof -
  let ?q = "pre @ f # post"
  define s1 where "s1 = snd (writeFile ev f s)"
  let ?cs = "concat (map (blocks_of ev) (out s1))"
  have a: "fst (writeFile ev f s) = RetErr e"
    using assms(3) by (simp add: writeFile_fails_iff)
  then have w: "writeFile ev f s = (RetErr e, s1)"
    by (cases "writeFile ev f s") (simp add: s1_def)
  have wf: "writeFiles ev ?q new_producer = (RetErr e, s1)"
    using writeFiles_append [OF assms(2), of "f # post"] w by simp
  then have b: "writeQueue ev ?q new_producer = (Panicked e, s1)"
    by (simp add: writeQueue_def)
  from writeFiles_frame [OF wf] have c: "\<not> closed s1" by (simp add: new_producer_def)
  note d = writeFile_out [OF w]
  have l: "launch ev ?q = Producing ?cs (Panicked e)" using b by (simp add: launch_def)
  obtain bs r where ra: "ReadAll ev NewTarDirReader sch = (bs, r)"
    by (cases "ReadAll ev NewTarDirReader sch")
  note rl = ReadAll_launched [OF assms(1) l ra, of m]
  from rl have st: "stream ev = concat ?cs" by blast
  have g: "\<exists>k. snd (ReadAll ev NewTarDirReader (replicate k (n, ov))) = Some (ProcessPanic e)"
    if "0 < n"
  proof -
    define k where "k = Suc (length (concat ?cs) + length ?cs)"
    have "length (concat ?cs) + length ?cs < k" by (simp add: k_def)
    from ReadAll_fresh_ends_at [OF assms(1) l that this, of ov]
    have "snd (ReadAll ev NewTarDirReader (replicate k (n, ov))) = Some (ProcessPanic e)"
      by simp
    then show ?thesis by blast
  qed
  from rl ra have h: "prefix (fst (ReadAll ev NewTarDirReader sch)) (stream ev)"
    "snd (ReadAll ev NewTarDirReader sch) = None \<or>
          snd (ReadAll ev NewTarDirReader sch) = Some (ProcessPanic e)"
    "snd (ReadAll ev NewTarDirReader sch) \<noteq> None \<and> no_overtaking sch \<longrightarrow>
            fst (ReadAll ev NewTarDirReader sch) = stream ev"
    "snd (ReadAll ev NewTarDirReader sch) \<noteq> None \<and> buffers_at_most m sch \<longrightarrow>
            length (stream ev) \<le> length (fst (ReadAll ev NewTarDirReader sch)) + m"
    by auto
  from a b c d st h g show ?thesis unfolding s1_def by blast
qed

theorem file_failure_panics_witness:
  "WalkDir (root ex_env_link) [] = (None, [''a''] @ ''l'' # []) \<and>
   fst (writeFiles ex_env_link [''a''] new_producer) = RetNil \<and>
   copy_fails ex_env_link ''l'' (snd (writeFiles ex_env_link [''a''] new_producer)) ErrIsDirectory \<and>
   fst (writeFile ex_env_link ''l'' (snd (writeFiles ex_env_link [''a''] new_producer)))
     = RetErr ErrIsDirectory \<and>
   fst (writeQueue ex_env_link [''a'', ''l''] new_producer) = Panicked ErrIsDirectory \<and>
   stream ex_env_link = replicate 512 1 @ [1, 2, 3] @ replicate 509 0 @ replicate 512 1 \<and>
   ReadAll ex_env_link NewTarDirReader (replicate 2000 (1, False))
     = (replicate 512 1 @ [1, 2, 3] @ replicate 509 0 @ replicate 512 1,
        Some (ProcessPanic ErrIsDirectory)) \<and>
   snd (ReadAll ex_env_link NewTarDirReader (replicate 2000 (1, True)))
     = Some (ProcessPanic ErrIsDirectory) \<and>
   1535 \<le> length (fst (ReadAll ex_env_link NewTarDirReader (replicate 2000 (1, True)))) \<and>
   length (fst (ReadAll ex_env_link NewTarDirReader (replicate 2000 (1, True)))) \<le> 1536"
proof -
  let ?s = "snd (writeFiles ex_env_link [''a''] new_producer)"
  let ?s1 = "snd (writeFile ex_env_link ''l'' ?s)"
  let ?A = "replicate 2000 (1::nat, False)"
  let ?B = "replicate 2000 (1::nat, True)"
  have h1: "WalkDir (root ex_env_link) [] = (None, [''a''] @ ''l'' # [])"
    using walk_link by simp
  have h2: "writeFiles ex_env_link [''a''] new_producer = (RetNil, ?s)"
    unfolding run_link_first by simp
  have f2: "fst (writeFiles ex_env_link [''a''] new_producer) = RetNil"
    unfolding run_link_first by simp
  have clean: "tw_err (tw ?s) = None \<and> tw_nb (tw ?s) = 0 \<and> tw_pad (tw ?s) = 0"
    using writeFiles_ok_clean [OF h2] by (simp add: new_producer_def NewWriter_def)
  let ?info = "\<lparr>fi_name = ''target'', fi_size = 4096, fi_mode = ModeDir, fi_perm = 493,
                fi_setuid = False, fi_setgid = True, fi_sticky = False, fi_modtime = 0\<rparr>"
  let ?fl = "\<lparr>f_stat = Inr ?info, f_reads = [], f_read_err = Some ErrIsDirectory\<rparr>"
  let ?hd = "mk_header ?info ''target/'' 0 TypeDir []"
  have op: "open_file ex_env_link ''l'' = Some (Inr ?fl)" by (simp add: ex_env_link_def)
  have hd: "FileInfoHeader ?info [] = Inr ?hd" by (simp add: FileInfoHeader_def)
  have en: "encode ex_env_link (?hd\<lparr>Name := Base ''l''\<rparr>) = Inr [ [], replicate blockSize 1]"
    by (simp add: ex_env_link_def ex_encode_def)
  have cf: "copy_fails ex_env_link ''l'' ?s ErrIsDirectory"
    using copy_fails_clean [OF _ _ op _ hd en refl refl, of ?s ErrIsDirectory] clean
    by (simp add: mk_header_def isHeaderOnlyType_def)
  then have h3: "open_fails ex_env_link ''l'' ErrIsDirectory \<or>
      stat_fails ex_env_link ''l'' ErrIsDirectory \<or>
      header_fails ex_env_link ''l'' ?s ErrIsDirectory \<or>
      copy_fails ex_env_link ''l'' ?s ErrIsDirectory"
    by blast
  note ca = file_failure_panics [OF h1 h2 h3, of ?A 1 1 False]
  note cb = file_failure_panics [OF h1 h2 h3, of ?B 1 1 True]
  from ca have f3: "fst (writeFile ex_env_link ''l'' ?s) = RetErr ErrIsDirectory"
    by blast
  from ca have wq: "writeQueue ex_env_link ([''a''] @ ''l'' # []) new_producer
      = (Panicked ErrIsDirectory, ?s1)"
    by blast
  then have p: "fst (writeQueue ex_env_link [''a'', ''l''] new_producer) = Panicked ErrIsDirectory"
    by simp
  from wq have o: "out ?s1 = out (snd (writeQueue ex_env_link [''a'', ''l''] new_producer))"
    by simp
  from ca have "stream ex_env_link = concat (concat (map (blocks_of ex_env_link) (out ?s1)))"
    by blast
  then have st: "stream ex_env_link = replicate 512 1 @ [1, 2, 3] @ replicate 509 0 @ replicate 512 1"
    unfolding o run_link by (simp add: ex_env_link_def ex_encode_def blockSize_def)
  have len: "length (stream ex_env_link) = 1536" unfolding st by simp
  have ea: "snd (ReadAll ex_env_link NewTarDirReader ?A) = Some (ProcessPanic ErrIsDirectory)"
    using ReadAll_fresh_ends_at [OF walk_link launch_link, of 1 2000 False] by simp
  have eb: "snd (ReadAll ex_env_link NewTarDirReader ?B) = Some (ProcessPanic ErrIsDirectory)"
    using ReadAll_fresh_ends_at [OF walk_link launch_link, of 1 2000 True] by simp
  from ca ea no_overtaking_replicate [of 2000 1]
  have "fst (ReadAll ex_env_link NewTarDirReader ?A) = stream ex_env_link"
    by simp
  with ea have ra: "ReadAll ex_env_link NewTarDirReader ?A
      = (replicate 512 1 @ [1, 2, 3] @ replicate 509 0 @ replicate 512 1,
         Some (ProcessPanic ErrIsDirectory))"
    unfolding st by (cases "ReadAll ex_env_link NewTarDirReader ?A") simp
  from cb eb buffers_at_most_replicate [of 1 1 2000 True]
  have lo: "1535 \<le> length (fst (ReadAll ex_env_link NewTarDirReader ?B))"
    unfolding len by simp
  from cb have "prefix (fst (ReadAll ex_env_link NewTarDirReader ?B)) (stream ex_env_link)"
    by blast
  then have hi: "length (fst (ReadAll ex_env_link NewTarDirReader ?B)) \<le> 1536"
    using len prefix_length_le by fastforce
  from h1 f2 cf f3 p st ra eb lo hi show ?thesis by blast
qed

text \<open>
  C1 as stated fails: for a root whose only file cannot be opened, the walk succeeds
  and the first \<open>Read\<close> does not return an error or the end of the stream; the task
  panics and the process ends.
\<close>

theorem unreadable_file_ends_process:
  "fst (init ex_env_unreadable NewTarDirReader) = None \<and>
   fst (Read ex_env_unreadable NewTarDirReader 4096 False) = ProcessPanic ErrPermission"
  by (simp add: Read_def init_walk_ok [OF walk_unreadable_file] launch_unreadable_file)

section \<open>A failed walk\<close>

text \<open>
  C2: when the walk of the first \<open>Read\<close> fails with an error, that call returns
  no bytes and that error, and no producing task has been started: nothing is or will
  be written to the pipe.
\<close>

theorem first_read_reports_walk_error:
  assumes "\<not> initialized t" and "fst (WalkDir (root ev) (queue t)) = Some e"
  shows "fst (Read ev t n overtaken) = Returns [] (Some e) \<and>
         pipe (snd (Read ev t n overtaken)) = NoWriter"
  using assms by (auto simp: Read_def init_def Let_def split: prod.splits option.splits)

theorem first_read_reports_walk_error_witness:
  "\<not> initialized NewTarDirReader \<and>
   fst (WalkDir (root ex_env_unlistable) (queue NewTarDirReader)) = Some ErrPermission \<and>
   fst (Read ex_env_unlistable NewTarDirReader 4096 False) = Returns [] (Some ErrPermission) \<and>
   pipe (snd (Read ex_env_unlistable NewTarDirReader 4096 False)) = NoWriter"
proof -
  have h1: "\<not> initialized NewTarDirReader"
    by (simp add: NewTarDirReader_def)
  have h2: "fst (WalkDir (root ex_env_unlistable) (queue NewTarDirReader)) = Some ErrPermission"
    by (simp add: ex_env_unlistable_def NewTarDirReader_def WalkDir_def ex_dir_def
        ex_regular_def walkFn_def join_def)
  show ?thesis
    using first_read_reports_walk_error [OF h1 h2, of 4096 False] h1 h2 by simp
qed

section \<open>The order of the entries\<close>




section \<open>What initialisation queues\<close>

text \<open>
  C4, as amended: the walk of \<open>init\<close> succeeds exactly when every directory of the
  tree can be listed, and the queue then holds the paths of exactly the entries that are
  not directories, in pre-order; the directories themselves are not queued. The regular
  files are among them, in the same order, but so is every other entry that is not a
  directory (a symbolic link, a device, a named pipe, a socket).
\<close>

theorem queue_holds_non_directories:
  assumes "root ev = Inr d"
  shows "(fst (init ev NewTarDirReader) = None) = readable d \<and>
         (readable d \<longrightarrow> queue (snd (init ev NewTarDirReader)) = nondir_paths ''.'' d) \<and>
         subseq (regular_paths ''.'' d) (nondir_paths ''.'' d)"
proof -
  obtain r q where w: "walkDir ''.'' d [] = (r, q)" by (cases "walkDir ''.'' d []")
  have i: "init ev NewTarDirReader =
      (r, NewTarDirReader\<lparr>initialized := True,
            pipe := (case r of None \<Rightarrow> launch ev q | Some e \<Rightarrow> NoWriter), queue := q\<rparr>)"
    using assms w
    by (cases r) (simp_all add: init_def NewTarDirReader_def WalkDir_def)
  have a: "(r = None) = readable d"
    using walk_readable(1) [of d "''.''" "[]"] walk_succeeds_readable(1) [of "''.''" d "[]"] w
    by auto
  have b: "readable d \<longrightarrow> q = nondir_paths ''.'' d"
    using a w walk_lists(1) [of "''.''" d "[]" q] by auto
  from i a b regular_among_nondir(1) [of "''.''" d] show ?thesis by simp
qed

theorem queue_holds_non_directories_witness:
  "root ex_env_collide = Inr (ex_dir [(''x'', ex_dir [(''f'', ex_regular)]), (''y'', ex_dir [(''f'', ex_regular)])]) \<and>
   readable (ex_dir [(''x'', ex_dir [(''f'', ex_regular)]), (''y'', ex_dir [(''f'', ex_regular)])]) \<and>
   fst (init ex_env_collide NewTarDirReader) = None \<and>
   queue (snd (init ex_env_collide NewTarDirReader)) = [''x/f'', ''y/f'']"
proof -
  let ?d = "ex_dir [(''x'', ex_dir [(''f'', ex_regular)]), (''y'', ex_dir [(''f'', ex_regular)])]"
  have h: "root ex_env_collide = Inr ?d" by (simp add: ex_env_collide_def)
  have r: "readable ?d" by (simp add: ex_dir_def ex_regular_def)
  have n: "nondir_paths ''.'' ?d = [''x/f'', ''y/f'']"
    by (simp add: ex_dir_def ex_regular_def join_def)
  from queue_holds_non_directories [OF h] h r n show ?thesis by simp
qed

text \<open>
  C4 as stated fails: for a directory holding a regular file \<open>f\<close> and a symbolic link
  \<open>l\<close>, the queue is \<open>f, l\<close>, while the regular files are \<open>f\<close> alone.
\<close>

theorem queue_not_only_regular_files:
  "snd (WalkDir (Inr ex_tree_symlink) []) = [''f'', ''l''] \<and>
   regular_paths ''.'' ex_tree_symlink = [''f'']"
  by (simp add: WalkDir_def ex_tree_symlink_def ex_dir_def ex_regular_def walkFn_def join_def)

section \<open>Entry names\<close>

text \<open>
  C5: every entry \<open>writeFile\<close> writes is named by the base name of the queued path (a
  call adds one such entry, or none when it fails before the header), and the base name
  of a path below a directory is the entry's own name, the directories dropped. When
  the task returns, the names of the entries are the base names of the queued paths, in
  queue order, so two files of the same base name both have their entry. In the view of
  a consumer that extracts the entries in order, a name holds the last entry of that
  name: the later of two such files replaces the earlier.
\<close>

theorem entry_name_is_base_name:
  assumes "writeQueue ev q new_producer = (Returned, s)"
  shows "entry_names (out s) = map Base q \<and>
         (entry_names (out (snd (writeFile ev f s0))) = entry_names (out s0) @ [Base f] \<or>
          (fst (writeFile ev f s0) \<noteq> RetNil \<and>
           entry_names (out (snd (writeFile ev f s0))) = entry_names (out s0))) \<and>
         (valid_name n \<longrightarrow> Base (join dir n) = n) \<and>
         (i < length (entries_of (out s)) \<and>
          (\<forall>j. i < j \<and> j < length (entries_of (out s)) \<longrightarrow>
                Name (fst (entries_of (out s) ! j)) \<noteq> Name (fst (entries_of (out s) ! i))) \<longrightarrow>
          consumer_view (entries_of (out s)) Map.empty (Name (fst (entries_of (out s) ! i)))
            = Some (entries_of (out s) ! i))"
proof -
  from writeQueue_names [OF assms] have a: "entry_names (out s) = map Base q" by auto
  obtain r s1 where w: "writeFile ev f s0 = (r, s1)" by (cases "writeFile ev f s0")
  from writeFile_names [OF w] w
  have b: "entry_names (out (snd (writeFile ev f s0))) = entry_names (out s0) @ [Base f] \<or>
          (fst (writeFile ev f s0) \<noteq> RetNil \<and>
           entry_names (out (snd (writeFile ev f s0))) = entry_names (out s0))"
    by simp
  have c: "valid_name n \<longrightarrow> Base (join dir n) = n"
    using Base_join_valid [of n dir] by blast
  have d: "i < length (entries_of (out s)) \<and>
          (\<forall>j. i < j \<and> j < length (entries_of (out s)) \<longrightarrow>
                Name (fst (entries_of (out s) ! j)) \<noteq> Name (fst (entries_of (out s) ! i))) \<longrightarrow>
          consumer_view (entries_of (out s)) Map.empty (Name (fst (entries_of (out s) ! i)))
            = Some (entries_of (out s) ! i)"
    using consumer_view_last [of i "entries_of (out s)" Map.empty] by blast
  from a b c d show ?thesis by blast
qed

theorem entry_name_is_base_name_witness:
  "fst (writeQueue ex_env_collide [''x/f'', ''y/f''] new_producer) = Returned \<and>
   entry_names (out (snd (writeQueue ex_env_collide [''x/f'', ''y/f''] new_producer))) = [''f'', ''f''] \<and>
   consumer_view (entries_of (out (snd (writeQueue ex_env_collide [''x/f'', ''y/f''] new_producer))))
      Map.empty ''f''
     = Some (\<lparr>Name = ''f'', Size = 2, Mode = 420, ModTime = 0, Typeflag = TypeReg, Linkname = []\<rparr>, [2, 2])"
proof -
  let ?s = "snd (writeQueue ex_env_collide [''x/f'', ''y/f''] new_producer)"
  have h: "writeQueue ex_env_collide [''x/f'', ''y/f''] new_producer = (Returned, ?s)"
    by (simp add: run_collide)
  have es: "entries_of (out ?s) =
     [(\<lparr>Name = ''f'', Size = 1, Mode = 420, ModTime = 0, Typeflag = TypeReg, Linkname = []\<rparr>, [1]),
      (\<lparr>Name = ''f'', Size = 2, Mode = 420, ModTime = 0, Typeflag = TypeReg, Linkname = []\<rparr>, [2, 2])]"
    by (simp add: run_collide)
  have b: "Base ''x/f'' = ''f''" "Base ''y/f'' = ''f''" by (simp_all add: Base_def)
  note c5 = entry_name_is_base_name [OF h, of "''x/f''" new_producer "''f''" "''x''" 1]
  from c5 b have names: "entry_names (out ?s) = [''f'', ''f'']" by simp
  from c5 have "1 < length (entries_of (out ?s)) \<and>
          (\<forall>j. 1 < j \<and> j < length (entries_of (out ?s)) \<longrightarrow>
                Name (fst (entries_of (out ?s) ! j)) \<noteq> Name (fst (entries_of (out ?s) ! 1))) \<longrightarrow>
          consumer_view (entries_of (out ?s)) Map.empty (Name (fst (entries_of (out ?s) ! 1)))
            = Some (entries_of (out ?s) ! 1)"
    by blast
  moreover have "1 < length (entries_of (out ?s))" by (simp add: es)
  moreover have "\<forall>j. 1 < j \<and> j < length (entries_of (out ?s)) \<longrightarrow>
                Name (fst (entries_of (out ?s) ! j)) \<noteq> Name (fst (entries_of (out ?s) ! 1))"
    by (simp add: es)
  ultimately have "consumer_view (entries_of (out ?s)) Map.empty (Name (fst (entries_of (out ?s) ! 1)))
            = Some (entries_of (out ?s) ! 1)"
    by blast
  then have view: "consumer_view (entries_of (out ?s)) Map.empty ''f''
     = Some (\<lparr>Name = ''f'', Size = 2, Mode = 420, ModTime = 0, Typeflag = TypeReg, Linkname = []\<rparr>, [2, 2])"
    by (simp add: es)
  have r: "fst (writeQueue ex_env_collide [''x/f'', ''y/f''] new_producer) = Returned"
    by (simp add: run_collide)
  from r names view show ?thesis by simp
qed

section \<open>A tree without files\<close>

text \<open>
  C6: when the walk succeeds and queues nothing, the producing task writes no entry,
  only the end-of-archive marker, and returns after closing the pipe. The bytes a
  consumer receives are an initial part of that marker; once a \<open>Read\<close> does not return
  with a nil error, it has received exactly the marker and that \<open>Read\<close> returns
  \<open>io.EOF\<close> (no other error, no panic); and reads with any buffer that is not empty get
  there.
\<close>

theorem empty_tree_stream:
  assumes "WalkDir (root ev) [] = (None, [])"
  shows "fst (writeQueue ev [] new_producer) = Returned \<and>
         entries_of (out (snd (writeQueue ev [] new_producer))) = [] \<and>
         stream ev = end_of_archive \<and>
         (snd (ReadAll ev NewTarDirReader sch) = None \<or>
          ReadAll ev NewTarDirReader sch = (end_of_archive, Some (Returns [] (Some EOF)))) \<and>
         (0 < n \<longrightarrow>
          ReadAll ev NewTarDirReader (replicate 1028 (n, ov))
            = (end_of_archive, Some (Returns [] (Some EOF))))"
proof -
  let ?t1 = "\<lparr>queue = [], pipe = launch ev [], initialized = True\<rparr>"
  let ?cs = "[ [], replicate blockSize 0, replicate blockSize (0::byte)]"
  have i: "init ev NewTarDirReader = (None, ?t1)" using assms by (rule init_walk_ok)
  have t1: "initialized ?t1" "pipe ?t1 = Producing ?cs Returned"
    by (simp_all add: launch_empty)
  have cc: "concat ?cs = end_of_archive"
    by (simp add: end_of_archive_def replicate_add [symmetric] del: replicate_add)
  have a: "fst (writeQueue ev [] new_producer) = Returned"
    by (simp add: writeQueue_def twClose_def Flush_def new_producer_def NewWriter_def)
  have b: "entries_of (out (snd (writeQueue ev [] new_producer))) = []"
    by (simp add: writeQueue_def twClose_def Flush_def new_producer_def NewWriter_def)
  have c: "stream ev = end_of_archive"
    using i cc by (simp add: stream_def launch_empty)
  have d: "snd (ReadAll ev NewTarDirReader sch) = None \<or>
          ReadAll ev NewTarDirReader sch = (end_of_archive, Some (Returns [] (Some EOF)))"
  proof -
    obtain bs r where ra: "ReadAll ev ?t1 sch = (bs, r)" by (cases "ReadAll ev ?t1 sch")
    from ReadAll_Producing [OF t1 ra, of 0] cc ra ReadAll_after_init [OF i, of sch]
    show ?thesis by auto
  qed
  have e: "ReadAll ev NewTarDirReader (replicate 1028 (n, ov))
      = (end_of_archive, Some (Returns [] (Some EOF)))"
    if "0 < n"
  proof -
    have "length (concat ?cs) + length ?cs < 1028" by (simp add: blockSize_def)
    from ReadAll_reaches_end [OF t1 that this, of ev ov]
    have s: "snd (ReadAll ev ?t1 (replicate 1028 (n, ov))) = Some (Returns [] (Some EOF))" by simp
    obtain bs r where ra: "ReadAll ev ?t1 (replicate 1028 (n, ov)) = (bs, r)"
      by (cases "ReadAll ev ?t1 (replicate 1028 (n, ov))")
    from ReadAll_Producing [OF t1 ra, of 0] s ra cc
      ReadAll_after_init [OF i, of "replicate 1028 (n, ov)"]
    show ?thesis by auto
  qed
  from a b c d e show ?thesis by blast
qed

theorem empty_tree_stream_witness:
  "WalkDir (root ex_env_empty) [] = (None, []) \<and>
   stream ex_env_empty = end_of_archive \<and>
   ReadAll ex_env_empty NewTarDirReader [(4096, False), (4096, False), (4096, False), (4096, False)]
     = (end_of_archive, Some (Returns [] (Some EOF)))"
proof -
  have h: "WalkDir (root ex_env_empty) [] = (None, [])"
    by (simp add: ex_env_empty_def WalkDir_def ex_dir_def walkFn_def join_def)
  have r: "snd (ReadAll ex_env_empty NewTarDirReader [(4096, False), (4096, False), (4096, False), (4096, False)]) \<noteq> None"
    using h
    by (simp add: Read_def init_def NewTarDirReader_def launch_empty blockSize_def)
  from empty_tree_stream [OF h, of "[(4096, False), (4096, False), (4096, False), (4096, False)]"] h r show ?thesis
    by (simp del: ReadAll.simps)
qed

section \<open>Reading in pieces\<close>

text \<open>
  C7, as amended: for every environment, the bytes a fresh reader returns over
  successive \<open>Read\<close> calls are an initial part of one byte sequence, \<open>stream\<close>, whatever
  the lengths of the buffers, and all runs of reads that end, end in the same way. A
  run that has ended has received all of \<open>stream\<close> when it ended with a \<open>Read\<close> that
  returns (\<open>io.EOF\<close>, or the error of the walk) or that never returns, so two such runs
  agree byte for byte; reads with any buffer that is not empty, one byte long or large,
  do get that far. When the run ended with the panic of the task, it has received all
  of \<open>stream\<close> if the panic overtook no read, and otherwise all but what the last read
  took, which is no more than that read's buffer holds.
\<close>

theorem reads_give_the_stream:
  "prefix (fst (ReadAll ev NewTarDirReader sch)) (stream ev) \<and>
   (snd (ReadAll ev NewTarDirReader sch) \<noteq> None \<and>
      (no_overtaking sch \<or> \<not> is_panic (snd (ReadAll ev NewTarDirReader sch))) \<longrightarrow>
    fst (ReadAll ev NewTarDirReader sch) = stream ev) \<and>
   (snd (ReadAll ev NewTarDirReader sch) \<noteq> None \<and> snd (ReadAll ev NewTarDirReader sch') \<noteq> None \<longrightarrow>
    snd (ReadAll ev NewTarDirReader sch) = snd (ReadAll ev NewTarDirReader sch')) \<and>
   (snd (ReadAll ev NewTarDirReader sch) \<noteq> None \<and> snd (ReadAll ev NewTarDirReader sch') \<noteq> None \<and>
      ((no_overtaking sch \<and> no_overtaking sch') \<or>
       \<not> is_panic (snd (ReadAll ev NewTarDirReader sch))) \<longrightarrow>
    ReadAll ev NewTarDirReader sch = ReadAll ev NewTarDirReader sch') \<and>
   (snd (ReadAll ev NewTarDirReader sch) \<noteq> None \<and> buffers_at_most m sch \<longrightarrow>
    length (stream ev) \<le> length (fst (ReadAll ev NewTarDirReader sch)) + m) \<and>
   (0 < n \<longrightarrow> (\<exists>k. snd (ReadAll ev NewTarDirReader (replicate k (n, ov))) \<noteq> None))"
proof -
  let ?A = "ReadAll ev NewTarDirReader sch"
  let ?B = "ReadAll ev NewTarDirReader sch'"
  from ReadAll_fresh [of ev] obtain R where
    R: "\<And>sch m. prefix (fst (ReadAll ev NewTarDirReader sch)) (stream ev) \<and>
      (snd (ReadAll ev NewTarDirReader sch) = None \<or> snd (ReadAll ev NewTarDirReader sch) = Some R) \<and>
      (snd (ReadAll ev NewTarDirReader sch) \<noteq> None \<and>
         (no_overtaking sch \<or> \<not> is_panic (snd (ReadAll ev NewTarDirReader sch))) \<longrightarrow>
       fst (ReadAll ev NewTarDirReader sch) = stream ev) \<and>
      (snd (ReadAll ev NewTarDirReader sch) \<noteq> None \<and> buffers_at_most m sch \<longrightarrow>
       length (stream ev) \<le> length (fst (ReadAll ev NewTarDirReader sch)) + m)"
    by blast
  note ra = R [of sch m] and rb = R [of sch' m]
  have a: "prefix (fst ?A) (stream ev)" using ra by blast
  have b: "snd ?A \<noteq> None \<and> (no_overtaking sch \<or> \<not> is_panic (snd ?A)) \<longrightarrow> fst ?A = stream ev"
    using ra by blast
  have c: "snd ?A \<noteq> None \<and> snd ?B \<noteq> None \<longrightarrow> snd ?A = snd ?B"
    using ra rb by auto
  have d: "snd ?A \<noteq> None \<and> snd ?B \<noteq> None \<and>
      ((no_overtaking sch \<and> no_overtaking sch') \<or> \<not> is_panic (snd ?A)) \<longrightarrow> ?A = ?B"
  proof (intro impI)
    assume h: "snd ?A \<noteq> None \<and> snd ?B \<noteq> None \<and>
      ((no_overtaking sch \<and> no_overtaking sch') \<or> \<not> is_panic (snd ?A))"
    with c have e: "snd ?A = snd ?B" by blast
    from h ra have "fst ?A = stream ev" by blast
    moreover from h e rb have "fst ?B = stream ev" by auto
    ultimately show "?A = ?B" using e by (simp add: prod_eq_iff)
  qed
  have e: "snd ?A \<noteq> None \<and> buffers_at_most m sch \<longrightarrow> length (stream ev) \<le> length (fst ?A) + m"
    using ra by blast
  have f: "0 < n \<longrightarrow> (\<exists>k. snd (ReadAll ev NewTarDirReader (replicate k (n, ov))) \<noteq> None)"
    using ReadAll_fresh_ends [of n ev ov] by blast
  from a b c d e f show ?thesis by blast
qed

theorem reads_give_the_stream_witness:
  "snd (ReadAll ex_env_two NewTarDirReader (replicate 4000 (1, True))) = Some (Returns [] (Some EOF)) \<and>
   snd (ReadAll ex_env_two NewTarDirReader (replicate 4000 (4096, False))) = Some (Returns [] (Some EOF)) \<and>
   ReadAll ex_env_two NewTarDirReader (replicate 4000 (1, True)) =
   ReadAll ex_env_two NewTarDirReader (replicate 4000 (4096, False)) \<and>
   snd (ReadAll ex_env_fifo NewTarDirReader (replicate 4000 (1, True))) = Some Blocks \<and>
   snd (ReadAll ex_env_fifo NewTarDirReader (replicate 4000 (4096, False))) = Some Blocks \<and>
   ReadAll ex_env_fifo NewTarDirReader (replicate 4000 (1, True)) =
   ReadAll ex_env_fifo NewTarDirReader (replicate 4000 (4096, False))"
proof -
  let ?A = "replicate 4000 (1::nat, True)"
  let ?B = "replicate 4000 (4096::nat, False)"
  have len: "length (concat [ [], [], replicate 512 1, [1, 2, 3], replicate 509 0,
                [], [], replicate 512 1, [1, 2, 3], replicate 509 0,
                [], replicate 512 0, replicate 512 (0::byte)]) + 13 < 4000"
    by simp
  have a1: "snd (ReadAll ex_env_two NewTarDirReader ?A) = Some (Returns [] (Some EOF))"
    using ReadAll_fresh_ends_at [OF walk_two launch_two, of 1 4000 True] len by simp
  have a2: "snd (ReadAll ex_env_two NewTarDirReader ?B) = Some (Returns [] (Some EOF))"
    using ReadAll_fresh_ends_at [OF walk_two launch_two, of 4096 4000 False] len by simp
  have b1: "snd (ReadAll ex_env_fifo NewTarDirReader ?A) = Some Blocks"
    using ReadAll_fresh_ends_at [OF walk_fifo launch_fifo, of 1 4000 True] by simp
  have b2: "snd (ReadAll ex_env_fifo NewTarDirReader ?B) = Some Blocks"
    using ReadAll_fresh_ends_at [OF walk_fifo launch_fifo, of 4096 4000 False] by simp
  have a0: "\<not> is_panic (snd (ReadAll ex_env_two NewTarDirReader ?A))"
    unfolding a1 by simp
  have b0: "\<not> is_panic (snd (ReadAll ex_env_fifo NewTarDirReader ?A))"
    unfolding b1 by simp
  have a1': "snd (ReadAll ex_env_two NewTarDirReader ?A) \<noteq> None" unfolding a1 by simp
  have a2': "snd (ReadAll ex_env_two NewTarDirReader ?B) \<noteq> None" unfolding a2 by simp
  have b1': "snd (ReadAll ex_env_fifo NewTarDirReader ?A) \<noteq> None" unfolding b1 by simp
  have b2': "snd (ReadAll ex_env_fifo NewTarDirReader ?B) \<noteq> None" unfolding b2 by simp
  from reads_give_the_stream [of ex_env_two ?A ?B] a0 a1' a2'
  have a3: "ReadAll ex_env_two NewTarDirReader ?A = ReadAll ex_env_two NewTarDirReader ?B"
    by blast
  from reads_give_the_stream [of ex_env_fifo ?A ?B] b0 b1' b2'
  have b3: "ReadAll ex_env_fifo NewTarDirReader ?A = ReadAll ex_env_fifo NewTarDirReader ?B"
    by blast
  from a1 a2 a3 b1 b2 b3 show ?thesis by blast
qed

text \<open>
  C7 as stated fails: for the tree with a regular file and a link to a directory, on
  which the task panics, eight reads with buffers of 4096 bytes and eleven reads with
  buffers of 256 bytes both end with the process, the panic overtaking the last read in
  both; the first run has received 1024 bytes by then and the second 1280.
\<close>

theorem buffers_change_what_a_panic_leaves:
  "snd (ReadAll ex_env_link NewTarDirReader 
      [(4096, True), (4096, True), (4096, True), (4096, True), (4096, True), (4096, True), (4096, True), (4096, True)]) = Some (ProcessPanic ErrIsDirectory) \<and>
   length (fst (ReadAll ex_env_link NewTarDirReader 
      [(4096, True), (4096, True), (4096, True), (4096, True), (4096, True), (4096, True), (4096, True), (4096, True)])) = 1024 \<and>
   snd (ReadAll ex_env_link NewTarDirReader 
      [(256, True), (256, True), (256, True), (256, True), (256, True), (256, True), (256, True), (256, True), (256, True), (256, True), (256, True)]) = Some (ProcessPanic ErrIsDirectory) \<and>
   length (fst (ReadAll ex_env_link NewTarDirReader 
      [(256, True), (256, True), (256, True), (256, True), (256, True), (256, True), (256, True), (256, True), (256, True), (256, True), (256, True)])) = 1280"
  by (simp add: read_first_link launch_link Read_initialized)

section \<open>Source file handles\<close>

text \<open>
  C8: \<open>writeFile\<close> leaves no source file open. Whatever it returns (success, or the
  error of \<open>Stat\<close>, of the header, of a write or of the copy), the files held open after
  it are those held before it; and when \<open>writeQueue\<close> ends, by returning or by a panic
  on some file, no source file is open.
\<close>

theorem writeFile_closes_handle:
  "handles (snd (writeFile ev f s)) = handles s \<and>
   handles (snd (writeQueue ev q new_producer)) = []"
proof
  show "handles (snd (writeFile ev f s)) = handles s"
    using writeFile_frame [of ev f s] by (cases "writeFile ev f s") simp
  show "handles (snd (writeQueue ev q new_producer)) = []"
    using writeQueue_handles [of ev q new_producer]
    by (cases "writeQueue ev q new_producer") (simp add: new_producer_def)
qed

section \<open>After a failed walk\<close>

text \<open>
  C10: after the first \<open>Read\<close> has returned the error of the walk, the reader is marked
  initialised and its pipe has no task writing to it. Whatever the source tree is by
  then, \<open>init\<close> returns nil and changes nothing, so the error is not reported again, and
  a further \<open>Read\<close> never returns: no data, no error, no end of stream.
\<close>

theorem failed_init_is_final:
  assumes "\<not> initialized t" and "fst (WalkDir (root ev) (queue t)) = Some e"
  shows "initialized (snd (Read ev t n ov)) \<and>
         pipe (snd (Read ev t n ov)) = NoWriter \<and>
         init ev' (snd (Read ev t n ov)) = (None, snd (Read ev t n ov)) \<and>
         Read ev' (snd (Read ev t n ov)) m ov' = (Blocks, snd (Read ev t n ov)) \<and>
         ReadAll ev' (snd (Read ev t n ov)) (c # sch) = ([], Some Blocks)"
proof -
  obtain q where w: "WalkDir (root ev) (queue t) = (Some e, q)"
    using assms(2) by (cases "WalkDir (root ev) (queue t)") simp
  define t1 where "t1 = t\<lparr>initialized := True, pipe := NoWriter, queue := q\<rparr>"
  have rd: "Read ev t n ov = (Returns [] (Some e), t1)"
    using assms(1) w by (simp add: Read_def init_def t1_def)
  have i: "initialized t1" and p: "pipe t1 = NoWriter" by (simp_all add: t1_def)
  have again: "init ev' t1 = (None, t1)" using i by (rule init_again)
  have blocks: "Read ev' t1 m ov' = (Blocks, t1)" for m ov'
    using i p by (simp add: Read_initialized)
  from rd i p again blocks [of m ov'] blocks [of "fst c" "snd c"] show ?thesis by simp
qed

theorem failed_init_is_final_witness:
  "\<not> initialized NewTarDirReader \<and>
   fst (WalkDir (root ex_env_unlistable) (queue NewTarDirReader)) = Some ErrPermission \<and>
   initialized (snd (Read ex_env_unlistable NewTarDirReader 4096 False)) \<and>
   pipe (snd (Read ex_env_unlistable NewTarDirReader 4096 False)) = NoWriter \<and>
   init ex_env_two (snd (Read ex_env_unlistable NewTarDirReader 4096 False))
     = (None, snd (Read ex_env_unlistable NewTarDirReader 4096 False)) \<and>
   Read ex_env_two (snd (Read ex_env_unlistable NewTarDirReader 4096 False)) 4096 False
     = (Blocks, snd (Read ex_env_unlistable NewTarDirReader 4096 False))"
proof -
  have h1: "\<not> initialized NewTarDirReader"
    by (simp add: NewTarDirReader_def)
  have h2: "fst (WalkDir (root ex_env_unlistable) (queue NewTarDirReader)) = Some ErrPermission"
    by (simp add: ex_env_unlistable_def NewTarDirReader_def WalkDir_def ex_dir_def
        ex_regular_def walkFn_def join_def)
  show ?thesis
    using failed_init_is_final [OF h1 h2, of 4096 False ex_env_two 4096 False] h1 h2 by simp
qed

end
